theory Spec2Isabelle
  imports Complex_Main "HOL-Library.Word" "HOL-Library.Log_Nat"
begin

section \<open>JavaScript values used by the note routes\<close>

text \<open>
  The handlers of \<^verbatim>\<open>src/app/api/[[...route]]/note.ts\<close> work on JavaScript strings, numbers
  and parsed JSON. A JavaScript string is a sequence of UTF-16 code units: \<open>length\<close> counts
  code units and \<open>trim\<close> removes Unicode white space, so a string is a list of 16-bit words
  here. \<open>js\<close> turns an ASCII literal of this theory into such a string.
\<close>

type_synonym jsstring = "16 word list"

definition js :: "string \<Rightarrow> jsstring" where
  "js s = map (\<lambda>c. of_char c) s"

text \<open>
  White space as \<open>String.prototype.trim\<close> and \<open>parseInt\<close> strip it (ECMAScript WhiteSpace and
  LineTerminator): TAB, LF, VT, FF, CR, SP, NBSP, U+1680, U+2000..U+200A, U+2028, U+2029,
  U+202F, U+205F, U+3000 and U+FEFF.
\<close>

definition isWhiteSpace :: "16 word \<Rightarrow> bool" where
  "isWhiteSpace c =
     (c = 0x09 \<or> c = 0x0A \<or> c = 0x0B \<or> c = 0x0C \<or> c = 0x0D \<or> c = 0x20 \<or> c = 0xA0 \<or>
      c = 0x1680 \<or> (0x2000 \<le> c \<and> c \<le> 0x200A) \<or> c = 0x2028 \<or> c = 0x2029 \<or>
      c = 0x202F \<or> c = 0x205F \<or> c = 0x3000 \<or> c = 0xFEFF)"

definition trim :: "jsstring \<Rightarrow> jsstring" where
  "trim s = rev (dropWhile isWhiteSpace (rev (dropWhile isWhiteSpace s)))"

text \<open>
  A JavaScript number, as far as the routes compute with it: \<open>NaN\<close>, an infinity, or a
  double whose value is an integer. (The quotient \<open>total / limit\<close> is the one value that need
  not be an integer; it is rounded up at once, see \<open>Math_ceil_div\<close>.) \<open>Num 0\<close> stands for
  both zeros, which the routes never tell apart.
\<close>

datatype jsnumber = NaN | Num int | PosInf | NegInf

text \<open>
  Rounding to the nearest double, ties to the even significand. \<open>ilog2 x\<close> is the exponent
  \<open>e\<close> with \<open>2^e \<le> x < 2^(e+1)\<close> of a positive \<open>x\<close>; a double has 53 significant bits, so its
  last place is worth \<open>2^(e - 52)\<close>, and never less than \<open>2^(-1074)\<close>. \<open>to_double\<close> leaves the
  range unbounded; \<open>Number\<close> turns an integer into the number the engine holds for it, an
  infinity from \<open>2^1024\<close> on.
\<close>

definition round_half_even :: "rat \<Rightarrow> int" where
  "round_half_even y =
     (let f = \<lfloor>y\<rfloor>; r = y - of_int f
      in if r < 1 / 2 then f else if 1 / 2 < r then f + 1 else if even f then f else f + 1)"

definition ilog2 :: "rat \<Rightarrow> int" where
  "ilog2 x = (if 1 \<le> x then bitlen \<lfloor>x\<rfloor> - 1 else - bitlen (\<lceil>1 / x\<rceil> - 1))"

definition to_double :: "rat \<Rightarrow> rat" where
  "to_double x =
     (if x = 0 then 0
      else (let u = 2 powi (max (ilog2 \<bar>x\<bar>) (- 1022) - 52)
            in of_int (round_half_even (x / u)) * u))"

definition Number :: "int \<Rightarrow> jsnumber" where
  "Number n =
     (let r = to_double (of_int n)
      in if 2 ^ 1024 \<le> r then PosInf else if r \<le> - (2 ^ 1024) then NegInf else Num \<lfloor>r\<rfloor>)"

definition isDigit :: "16 word \<Rightarrow> bool" where
  "isDigit c = (0x30 \<le> c \<and> c \<le> 0x39)"

definition digitValue :: "16 word \<Rightarrow> int" where
  "digitValue c = uint c - 48"

text \<open>
  \<open>parseInt(s, 10)\<close>: skip leading white space, read one optional sign, then the longest
  run of decimal digits; no digit gives \<open>NaN\<close>. What follows the digits is ignored. The result
  is the number for the integer the digits write (an engine may read digits after the
  twentieth as zeros; that freedom is not used here).
\<close>

definition parseInt :: "jsstring \<Rightarrow> jsnumber" where
  "parseInt s =
     (let t = dropWhile isWhiteSpace s;
          neg = (t \<noteq> [] \<and> hd t = 0x2D);
          r = (if t \<noteq> [] \<and> (hd t = 0x2B \<or> hd t = 0x2D) then tl t else t);
          ds = takeWhile isDigit r
      in if ds = [] then NaN
         else Number ((if neg then - 1 else 1) * foldl (\<lambda>a c. 10 * a + digitValue c) 0 ds))"

fun isNaN :: "jsnumber \<Rightarrow> bool" where
  "isNaN NaN = True"
| "isNaN _ = False"

text \<open>\<open>x < y\<close>; \<open>x > y\<close> is \<open>js_less y x\<close>. A comparison with \<open>NaN\<close> is false.\<close>

fun js_less :: "jsnumber \<Rightarrow> jsnumber \<Rightarrow> bool" where
  "js_less (Num a) (Num b) = (a < b)"
| "js_less NegInf (Num b) = True"
| "js_less NegInf PosInf = True"
| "js_less (Num a) PosInf = True"
| "js_less _ _ = False"

fun Math_max :: "jsnumber \<Rightarrow> jsnumber \<Rightarrow> jsnumber" where
  "Math_max NaN y = NaN"
| "Math_max x NaN = NaN"
| "Math_max PosInf y = PosInf"
| "Math_max x PosInf = PosInf"
| "Math_max NegInf y = y"
| "Math_max x NegInf = x"
| "Math_max (Num a) (Num b) = Num (max a b)"

fun Math_min :: "jsnumber \<Rightarrow> jsnumber \<Rightarrow> jsnumber" where
  "Math_min NaN y = NaN"
| "Math_min x NaN = NaN"
| "Math_min NegInf y = NegInf"
| "Math_min x NegInf = NegInf"
| "Math_min PosInf y = y"
| "Math_min x PosInf = x"
| "Math_min (Num a) (Num b) = Num (min a b)"

text \<open>\<open>x - y\<close> and \<open>x * y\<close>: the exact result, rounded to a double.\<close>

fun js_minus :: "jsnumber \<Rightarrow> jsnumber \<Rightarrow> jsnumber" where
  "js_minus NaN y = NaN"
| "js_minus x NaN = NaN"
| "js_minus PosInf PosInf = NaN"
| "js_minus NegInf NegInf = NaN"
| "js_minus PosInf y = PosInf"
| "js_minus NegInf y = NegInf"
| "js_minus x PosInf = NegInf"
| "js_minus x NegInf = PosInf"
| "js_minus (Num a) (Num b) = Number (a - b)"

fun js_times :: "jsnumber \<Rightarrow> jsnumber \<Rightarrow> jsnumber" where
  "js_times NaN y = NaN"
| "js_times x NaN = NaN"
| "js_times (Num a) (Num b) = Number (a * b)"
| "js_times PosInf PosInf = PosInf"
| "js_times PosInf NegInf = NegInf"
| "js_times NegInf PosInf = NegInf"
| "js_times NegInf NegInf = PosInf"
| "js_times PosInf (Num b) = (if b = 0 then NaN else if 0 < b then PosInf else NegInf)"
| "js_times NegInf (Num b) = (if b = 0 then NaN else if 0 < b then NegInf else PosInf)"
| "js_times (Num a) PosInf = (if a = 0 then NaN else if 0 < a then PosInf else NegInf)"
| "js_times (Num a) NegInf = (if a = 0 then NaN else if 0 < a then NegInf else PosInf)"

text \<open>
  \<open>Math.ceil(x / y)\<close>: the quotient of two integers is rounded to a double and then up to
  an integer. It cannot overflow, a divisor that is not zero being at least 1 in magnitude.
\<close>

fun Math_ceil_div :: "jsnumber \<Rightarrow> jsnumber \<Rightarrow> jsnumber" where
  "Math_ceil_div NaN y = NaN"
| "Math_ceil_div x NaN = NaN"
| "Math_ceil_div (Num a) (Num b) =
     (if b = 0 then (if a = 0 then NaN else if 0 < a then PosInf else NegInf)
      else Num \<lceil>to_double (of_int a / of_int b)\<rceil>)"
| "Math_ceil_div (Num a) y = Num 0"
| "Math_ceil_div PosInf (Num b) = (if 0 \<le> b then PosInf else NegInf)"
| "Math_ceil_div NegInf (Num b) = (if 0 \<le> b then NegInf else PosInf)"
| "Math_ceil_div x y = NaN"

text \<open>
  The value \<open>JSON.parse\<close> gives. An object is the list of its properties. Of a number only
  whether it is zero is ever looked at (its truthiness).
\<close>

datatype json =
    JNull
  | JBool bool
  | JNum rat
  | JStr jsstring
  | JArr "json list"
  | JObj "(jsstring \<times> json) list"

text \<open>
  What a handler catches: an \<open>HTTPException\<close> with its status and message, any other
  \<open>Error\<close> with its message, or a thrown value that is no \<open>Error\<close>.
\<close>

datatype exn = HTTPException nat jsstring | Error jsstring | NonError

text \<open>
  What the surroundings of one request supply: the clock, the identifier the store would
  give a new note, and the message text of an \<open>Error\<close> raised by the runtime, by Hono or by
  the Prisma client while the request is handled (its wording is theirs).
\<close>

record env =
  now :: nat
  uuid :: jsstring
  lib_message :: jsstring

text \<open>
  The request body as \<open>c.req.json()\<close> meets it: text that is not JSON, where the call rejects
  with a \<open>SyntaxError\<close>, or the parsed value.
\<close>

datatype raw_body = NotJson | Json json

definition req_json :: "env \<Rightarrow> raw_body \<Rightarrow> exn + json" where
  "req_json e b = (case b of NotJson \<Rightarrow> Inl (Error (lib_message e)) | Json j \<Rightarrow> Inr j)"

text \<open>
  Reading \<open>body.title\<close> or \<open>body.content\<close>: \<open>None\<close> is \<open>undefined\<close>. Reading a property of
  \<open>null\<close> throws a \<open>TypeError\<close>; a string, number, boolean or array has neither property.
\<close>

fun get_prop :: "env \<Rightarrow> json \<Rightarrow> jsstring \<Rightarrow> exn + json option" where
  "get_prop e JNull k = Inl (Error (lib_message e))"
| "get_prop e (JObj kvs) k = Inr (map_of kvs k)"
| "get_prop e _ k = Inr None"

fun truthy :: "json option \<Rightarrow> bool" where
  "truthy None = False"
| "truthy (Some JNull) = False"
| "truthy (Some (JBool b)) = b"
| "truthy (Some (JNum n)) = (n \<noteq> 0)"
| "truthy (Some (JStr s)) = (s \<noteq> [])"
| "truthy (Some (JArr xs)) = True"
| "truthy (Some (JObj kvs)) = True"

fun typeof_string :: "json option \<Rightarrow> bool" where
  "typeof_string (Some (JStr s)) = True"
| "typeof_string _ = False"

fun str :: "json option \<Rightarrow> jsstring" where
  "str (Some (JStr s)) = s"
| "str _ = []"

section \<open>The identifier pattern\<close>

text \<open>
  \<^verbatim>\<open>/^[0-9a-f]{8}-?[0-9a-f]{4}-?4[0-9a-f]{3}-?[89ab][0-9a-f]{3}-?[0-9a-f]{12}$/i\<close>
  A character class is a list of ranges; a pattern is a list of terms, each one character of
  a class (\<open>One\<close>) or an optional one (\<open>Opt\<close>); \<open>x{n}\<close> is \<open>n\<close> copies of \<open>x\<close>. The pattern is
  anchored at both ends. With the flag \<open>i\<close> a character matches a class when it, its upper
  case or its lower case is in it; only ASCII letters stand in these classes, and no other
  character folds to one of them.
\<close>

type_synonym cclass = "(16 word \<times> 16 word) list"

datatype rterm = One cclass | Opt cclass

definition toUpper :: "16 word \<Rightarrow> 16 word" where
  "toUpper c = (if 0x61 \<le> c \<and> c \<le> 0x7A then c - 0x20 else c)"

definition toLower :: "16 word \<Rightarrow> 16 word" where
  "toLower c = (if 0x41 \<le> c \<and> c \<le> 0x5A then c + 0x20 else c)"

fun in_class :: "cclass \<Rightarrow> 16 word \<Rightarrow> bool" where
  "in_class [] c = False"
| "in_class ((lo, hi) # rs) c = ((lo \<le> c \<and> c \<le> hi) \<or> in_class rs c)"

definition in_class_i :: "cclass \<Rightarrow> 16 word \<Rightarrow> bool" where
  "in_class_i cls c = (in_class cls c \<or> in_class cls (toUpper c) \<or> in_class cls (toLower c))"

fun matches :: "rterm list \<Rightarrow> jsstring \<Rightarrow> bool" where
  "matches [] s = (s = [])"
| "matches (One cls # ps) s =
     (case s of [] \<Rightarrow> False | c # cs \<Rightarrow> in_class_i cls c \<and> matches ps cs)"
| "matches (Opt cls # ps) s =
     ((case s of [] \<Rightarrow> False | c # cs \<Rightarrow> in_class_i cls c \<and> matches ps cs) \<or> matches ps s)"

definition hex :: cclass where
  "hex = [(0x30, 0x39), (0x61, 0x66)]"

definition hyphen :: cclass where
  "hyphen = [(0x2D, 0x2D)]"

definition four :: cclass where
  "four = [(0x34, 0x34)]"

definition variant :: cclass where
  "variant = [(0x38, 0x39), (0x61, 0x62)]"

definition id_pattern :: "rterm list" where
  "id_pattern =
     replicate 8 (One hex) @ [Opt hyphen] @
     replicate 4 (One hex) @ [Opt hyphen] @
     [One four] @ replicate 3 (One hex) @ [Opt hyphen] @
     [One variant] @ replicate 3 (One hex) @ [Opt hyphen] @
     replicate 12 (One hex)"

text \<open>The test both handlers make: \<open>!id || !id.match(...)\<close>.\<close>

definition invalid_id :: "jsstring \<Rightarrow> bool" where
  "invalid_id i = (i = [] \<or> \<not> matches id_pattern i)"

section \<open>The identifier shape of the specification\<close>

text \<open>
  The hyphen at one of the four places of an identifier, present or not, and an identifier
  put together from its five groups of digits.
\<close>

definition hy :: "bool \<Rightarrow> jsstring" where
  "hy b = (if b then [0x2D] else [])"

definition assemble ::
  "jsstring \<Rightarrow> bool \<Rightarrow> jsstring \<Rightarrow> bool \<Rightarrow> jsstring \<Rightarrow> bool \<Rightarrow> jsstring \<Rightarrow> bool \<Rightarrow> jsstring
     \<Rightarrow> jsstring" where
  "assemble g1 b1 g2 b2 g3 b3 g4 b4 g5 = g1 @ hy b1 @ g2 @ hy b2 @ g3 @ hy b3 @ g4 @ hy b4 @ g5"

text \<open>
  The shape of an identifier, following the words of the specification and not the pattern
  of the source: 32 hexadecimal digits of either case in groups of 8, 4, 4, 4 and 12, the
  first digit of the third group \<open>4\<close> (the version), the first digit of the fourth group one of
  \<open>8\<close>, \<open>9\<close>, \<open>a\<close>, \<open>b\<close> (the variant), and a hyphen or none between two groups. That the
  pattern of the source accepts exactly this shape is \<open>matches_id_pattern_iff\<close> below.
\<close>

definition hex_digit :: "16 word \<Rightarrow> bool" where
  "hex_digit c =
     ((0x30 \<le> c \<and> c \<le> 0x39) \<or> (0x41 \<le> c \<and> c \<le> 0x46) \<or> (0x61 \<le> c \<and> c \<le> 0x66))"

definition uuid_v4_shape :: "jsstring \<Rightarrow> bool" where
  "uuid_v4_shape s =
     (\<exists>g1 g2 g3 g4 g5 b1 b2 b3 b4.
        s = assemble g1 b1 g2 b2 g3 b3 g4 b4 g5 \<and>
        length g1 = 8 \<and> length g2 = 4 \<and> length g3 = 4 \<and> length g4 = 4 \<and> length g5 = 12 \<and>
        list_all hex_digit (g1 @ g2 @ g3 @ g4 @ g5) \<and>
        hd g3 = 0x34 \<and>
        hd g4 \<in> {0x38, 0x39, 0x61, 0x62, 0x41, 0x42})"

section \<open>The note store\<close>

text \<open>
  A note as the store keeps it (\<open>noteId\<close> is the column \<open>id\<close>), and the fields every
  \<open>select\<close> of the routes asks for: all but \<open>userId\<close>.
\<close>

record Note =
  noteId :: jsstring
  title :: jsstring
  content :: jsstring
  userId :: jsstring
  createdAt :: nat
  updatedAt :: nat

record selected =
  sel_id :: jsstring
  sel_title :: jsstring
  sel_content :: jsstring
  sel_createdAt :: nat
  sel_updatedAt :: nat

definition select_fields :: "Note \<Rightarrow> selected" where
  "select_fields n =
     \<lparr>sel_id = noteId n, sel_title = title n, sel_content = content n,
      sel_createdAt = createdAt n, sel_updatedAt = updatedAt n\<rparr>"

text \<open>
  The store is the list of its notes, oldest first, together with the calls made on it so
  far (the newest last), so that a handler's store accesses can be read off.
\<close>

datatype store_call =
    NoteCreate
  | NoteFindFirst jsstring jsstring
  | NoteUpdate jsstring
  | NoteFindMany jsstring jsnumber jsnumber
  | NoteCount jsstring

record store =
  table :: "Note list"
  calls :: "store_call list"

definition logged :: "store_call \<Rightarrow> store \<Rightarrow> store" where
  "logged c st = st\<lparr>calls := calls st @ [c]\<rparr>"

text \<open>
  Modelled from the spec: the Prisma client (\<^verbatim>\<open>@/lib/prisma\<close>) and its schema are not among the
  sources. The store is the record store of the specification: \<open>title\<close> and \<open>content\<close> are
  strings, \<open>id\<close> is the key and is assigned by the store, \<open>createdAt\<close> and \<open>updatedAt\<close> are
  assigned by the server, and \<open>updatedAt\<close> is refreshed by every successful update. A value
  of the wrong type, a key already in use and an update of a missing note make the call
  reject with an \<open>Error\<close>. The store itself never fails otherwise.
\<close>

definition prisma_note_create ::
  "env \<Rightarrow> store \<Rightarrow> jsstring \<Rightarrow> json \<Rightarrow> jsstring \<Rightarrow> (exn + Note) \<times> store" where
  "prisma_note_create e st t c u =
     (let st1 = logged NoteCreate st in
      case c of
        JStr cs \<Rightarrow>
          if uuid e \<in> set (map noteId (table st)) then (Inl (Error (lib_message e)), st1)
          else
            (let n = \<lparr>noteId = uuid e, title = t, content = cs, userId = u,
                      createdAt = now e, updatedAt = now e\<rparr>
             in (Inr n, st1\<lparr>table := table st @ [n]\<rparr>))
      | _ \<Rightarrow> (Inl (Error (lib_message e)), st1))"

text \<open>Modelled from the spec: \<open>findFirst\<close> with \<open>where: { id, userId }\<close>.\<close>

definition prisma_note_findFirst ::
  "store \<Rightarrow> jsstring \<Rightarrow> jsstring \<Rightarrow> Note option \<times> store" where
  "prisma_note_findFirst st i u =
     (find (\<lambda>n. noteId n = i \<and> userId n = u) (table st), logged (NoteFindFirst i u) st)"

text \<open>
  Modelled from the spec: a field of \<open>data\<close> that is \<open>undefined\<close> is left as it is, a string
  is stored, anything else is refused.
\<close>

fun data_field_ok :: "json option \<Rightarrow> bool" where
  "data_field_ok None = True"
| "data_field_ok (Some (JStr s)) = True"
| "data_field_ok _ = False"

fun data_field :: "json option \<Rightarrow> jsstring \<Rightarrow> jsstring" where
  "data_field (Some (JStr s)) old = s"
| "data_field _ old = old"

definition apply_update :: "env \<Rightarrow> json option \<Rightarrow> json option \<Rightarrow> Note \<Rightarrow> Note" where
  "apply_update e t c n =
     n\<lparr>title := data_field t (title n), content := data_field c (content n),
       updatedAt := now e\<rparr>"

text \<open>Modelled from the spec: \<open>update\<close> with \<open>where: { id }\<close>, the key of the note.\<close>

definition prisma_note_update ::
  "env \<Rightarrow> store \<Rightarrow> jsstring \<Rightarrow> json option \<Rightarrow> json option \<Rightarrow> (exn + Note) \<times> store" where
  "prisma_note_update e st i t c =
     (let st1 = logged (NoteUpdate i) st in
      if \<not> data_field_ok t \<or> \<not> data_field_ok c then (Inl (Error (lib_message e)), st1)
      else
        case find (\<lambda>n. noteId n = i) (table st) of
          None \<Rightarrow> (Inl (Error (lib_message e)), st1)
        | Some n \<Rightarrow>
            (Inr (apply_update e t c n),
             st1\<lparr>table := map (\<lambda>m. if noteId m = i then apply_update e t c m else m) (table st)\<rparr>))"

text \<open>
  Modelled from the spec: \<open>findMany\<close> with \<open>where: { userId }\<close>, newest \<open>updatedAt\<close> first (notes
  updated at the same time stay in the order of the store), \<open>skip\<close> and \<open>take\<close>. They are counts
  of notes: a \<open>skip\<close> or \<open>take\<close> that is no integer, or a negative \<open>skip\<close>, is refused.
\<close>

definition prisma_note_findMany ::
  "env \<Rightarrow> store \<Rightarrow> jsstring \<Rightarrow> jsnumber \<Rightarrow> jsnumber \<Rightarrow> (exn + Note list) \<times> store" where
  "prisma_note_findMany e st u skip tk =
     (let st1 = logged (NoteFindMany u skip tk) st in
      case (skip, tk) of
        (Num s, Num t) \<Rightarrow>
          if 0 \<le> s
          then (Inr (take (nat t) (drop (nat s)
                  (sort_key (\<lambda>n. - int (updatedAt n))
                     (filter (\<lambda>n. userId n = u) (table st))))), st1)
          else (Inl (Error (lib_message e)), st1)
      | _ \<Rightarrow> (Inl (Error (lib_message e)), st1))"

text \<open>
  Modelled from the spec: \<open>count\<close> with the same filter, reported as a JavaScript number.
\<close>

definition prisma_note_count :: "store \<Rightarrow> jsstring \<Rightarrow> jsnumber \<times> store" where
  "prisma_note_count st u =
     (Number (int (length (filter (\<lambda>n. userId n = u) (table st)))), logged (NoteCount u) st)"

section \<open>The handlers\<close>

text \<open>
  The authenticated user that \<open>getAuthUser\<close> has put into the context before a handler runs:
  \<open>uid\<close> is \<open>user.id\<close>.
\<close>

record user =
  uid :: jsstring

text \<open>
  What a handler returns with \<open>c.json\<close>: the status and the body. \<open>Data\<close> is \<open>{ data }\<close>,
  \<open>SuccessData\<close> is \<open>{ success: true, data }\<close>, \<open>SuccessPage\<close> adds the pagination object.
\<close>

record pagination =
  total :: jsnumber
  page :: jsnumber
  limit :: jsnumber
  totalPages :: jsnumber
  hasNextPage :: bool
  hasPreviousPage :: bool

datatype payload =
    Data selected
  | SuccessData selected
  | SuccessPage "selected list" pagination

datatype reply = Reply nat payload

text \<open>
  The outcome of a handler is what it throws or what it returns. Hono answers a thrown
  \<open>HTTPException\<close> with its status, and any other thrown value with 500.
\<close>

type_synonym outcome = "exn + reply"

fun status_of :: "outcome \<Rightarrow> nat" where
  "status_of (Inl (HTTPException s m)) = s"
| "status_of (Inl _) = 500"
| "status_of (Inr (Reply s p)) = s"

fun message_of :: "exn \<Rightarrow> jsstring option" where
  "message_of (HTTPException s m) = Some m"
| "message_of (Error m) = Some m"
| "message_of NonError = None"

subsection \<open>POST /create\<close>

text \<open>The \<open>try\<close> block (lines 26 to 55).\<close>

definition create_try :: "env \<Rightarrow> store \<Rightarrow> user \<Rightarrow> raw_body \<Rightarrow> outcome \<times> store" where
  "create_try e st u rb =
     (case req_json e rb of
        Inl x \<Rightarrow> (Inl x, st)
      | Inr body \<Rightarrow>
          (case get_prop e body (js ''title'') of
             Inl x \<Rightarrow> (Inl x, st)
           | Inr t \<Rightarrow>
               if \<not> truthy t \<or> \<not> typeof_string t \<or> length (trim (str t)) = 0
               then (Inl (HTTPException 400 (js ''Title is required'')), st)
               else if length (str t) > 255
               then (Inl (HTTPException 400 (js ''Title is too long'')), st)
               else
                 (case get_prop e body (js ''content'') of
                    Inl x \<Rightarrow> (Inl x, st)
                  | Inr c \<Rightarrow>
                      (case prisma_note_create e st (str t)
                              (if truthy c then the c else JStr []) (uid u) of
                         (Inl x, st1) \<Rightarrow> (Inl x, st1)
                       | (Inr n, st1) \<Rightarrow> (Inr (Reply 201 (Data (select_fields n))), st1)))))"

text \<open>The \<open>catch\<close> block (lines 56 to 61): every caught value is thrown again as a 500.\<close>

definition create_catch :: "exn \<Rightarrow> exn" where
  "create_catch x =
     HTTPException 500 (case message_of x of Some m \<Rightarrow> m | None \<Rightarrow> js ''Failed to create note'')"

definition create_handler :: "env \<Rightarrow> store \<Rightarrow> user \<Rightarrow> raw_body \<Rightarrow> outcome \<times> store" where
  "create_handler e st u rb =
     (case create_try e st u rb of
        (Inl x, st1) \<Rightarrow> (Inl (create_catch x), st1)
      | (Inr r, st1) \<Rightarrow> (Inr r, st1))"

subsection \<open>PATCH /update/:id\<close>

text \<open>
  The \<open>try\<close> block (lines 68 to 107). The body is parsed before the identifier is looked at;
  \<open>body.title\<close> and \<open>body.content\<close> are read only when the \<open>data\<close> of the update is built.
\<close>

definition update_try ::
  "env \<Rightarrow> store \<Rightarrow> user \<Rightarrow> jsstring \<Rightarrow> raw_body \<Rightarrow> outcome \<times> store" where
  "update_try e st u i rb =
     (case req_json e rb of
        Inl x \<Rightarrow> (Inl x, st)
      | Inr body \<Rightarrow>
          if invalid_id i then (Inl (HTTPException 400 (js ''Invalid note ID format'')), st)
          else
            (case prisma_note_findFirst st i (uid u) of
               (None, st1) \<Rightarrow> (Inl (HTTPException 404 (js ''Note not found'')), st1)
             | (Some existingNote, st1) \<Rightarrow>
                 (case get_prop e body (js ''title'') of
                    Inl x \<Rightarrow> (Inl x, st1)
                  | Inr t \<Rightarrow>
                      (case get_prop e body (js ''content'') of
                         Inl x \<Rightarrow> (Inl x, st1)
                       | Inr c \<Rightarrow>
                           (case prisma_note_update e st1 i t c of
                              (Inl x, st2) \<Rightarrow> (Inl x, st2)
                            | (Inr n, st2) \<Rightarrow>
                                (Inr (Reply 200 (SuccessData (select_fields n))), st2))))))"

text \<open>
  The \<open>catch\<close> block (lines 108 to 114): an \<open>HTTPException\<close> is thrown again as it is,
  anything else as a 500.
\<close>

definition update_catch :: "exn \<Rightarrow> exn" where
  "update_catch x =
     (case x of
        HTTPException s m \<Rightarrow> x
      | _ \<Rightarrow> HTTPException 500
               (case message_of x of Some m \<Rightarrow> m | None \<Rightarrow> js ''Failed to update note''))"

definition update_handler ::
  "env \<Rightarrow> store \<Rightarrow> user \<Rightarrow> jsstring \<Rightarrow> raw_body \<Rightarrow> outcome \<times> store" where
  "update_handler e st u i rb =
     (case update_try e st u i rb of
        (Inl x, st1) \<Rightarrow> (Inl (update_catch x), st1)
      | (Inr r, st1) \<Rightarrow> (Inr r, st1))"

subsection \<open>GET /all\<close>

text \<open>
  The query is the record of the query string's parameters. Lines 124 to 131: a parameter
  that is absent or empty is not parsed at all and gives the default.
\<close>

type_synonym query = "jsstring \<rightharpoonup> jsstring"

definition parse_page :: "query \<Rightarrow> jsnumber" where
  "parse_page q =
     (case q (js ''page'') of
        None \<Rightarrow> Num 1
      | Some s \<Rightarrow> if s \<noteq> [] then Math_max (Num 1) (parseInt s) else Num 1)"

definition parse_limit :: "query \<Rightarrow> jsnumber" where
  "parse_limit q =
     (case q (js ''limit'') of
        None \<Rightarrow> Num 20
      | Some s \<Rightarrow>
          if s \<noteq> [] then Math_min (Num 100) (Math_max (Num 1) (parseInt s)) else Num 20)"

definition parse_pagination :: "query \<Rightarrow> exn + jsnumber \<times> jsnumber" where
  "parse_pagination q =
     (let p = parse_page q; l = parse_limit q
      in if isNaN p \<or> isNaN l \<or> js_less p (Num 1) \<or> js_less l (Num 1) \<or>
            js_less (Num 100) l
         then Inl (HTTPException 400 (js ''Invalid pagination parameters''))
         else Inr (p, l))"

text \<open>
  The \<open>try\<close> block (lines 120 to 164). Both store calls are made, \<open>findMany\<close> first; when
  \<open>findMany\<close> rejects, so does \<open>Promise.all\<close>.
\<close>

definition list_try :: "env \<Rightarrow> store \<Rightarrow> user \<Rightarrow> query \<Rightarrow> outcome \<times> store" where
  "list_try e st u q =
     (case parse_pagination q of
        Inl x \<Rightarrow> (Inl x, st)
      | Inr (p, l) \<Rightarrow>
          (let skip = js_times (js_minus p (Num 1)) l;
               (found, st1) = prisma_note_findMany e st (uid u) skip l;
               (tot, st2) = prisma_note_count st1 (uid u)
           in case found of
                Inl x \<Rightarrow> (Inl x, st2)
              | Inr ns \<Rightarrow>
                  (let pages = Math_ceil_div tot l
                   in (Inr (Reply 200 (SuccessPage (map select_fields ns)
                         \<lparr>total = tot, page = p, limit = l, totalPages = pages,
                          hasNextPage = js_less p pages,
                          hasPreviousPage = js_less (Num 1) p\<rparr>)), st2))))"

text \<open>The \<open>catch\<close> block (lines 165 to 170): every caught value is thrown again as a 500.\<close>

definition list_catch :: "exn \<Rightarrow> exn" where
  "list_catch x =
     HTTPException 500 (case message_of x of Some m \<Rightarrow> m | None \<Rightarrow> js ''Failed to fetch notes'')"

definition list_handler :: "env \<Rightarrow> store \<Rightarrow> user \<Rightarrow> query \<Rightarrow> outcome \<times> store" where
  "list_handler e st u q =
     (case list_try e st u q of
        (Inl x, st1) \<Rightarrow> (Inl (list_catch x), st1)
      | (Inr r, st1) \<Rightarrow> (Inr r, st1))"

subsection \<open>GET /:id\<close>

text \<open>The \<open>try\<close> block (lines 175 to 205).\<close>

definition get_try :: "env \<Rightarrow> store \<Rightarrow> user \<Rightarrow> jsstring \<Rightarrow> outcome \<times> store" where
  "get_try e st u i =
     (if invalid_id i then (Inl (HTTPException 400 (js ''Invalid note ID format'')), st)
      else
        (case prisma_note_findFirst st i (uid u) of
           (None, st1) \<Rightarrow> (Inl (HTTPException 404 (js ''Note not found'')), st1)
         | (Some n, st1) \<Rightarrow> (Inr (Reply 200 (SuccessData (select_fields n))), st1)))"

text \<open>The \<open>catch\<close> block (lines 206 to 212), as that of the update.\<close>

definition get_catch :: "exn \<Rightarrow> exn" where
  "get_catch x =
     (case x of
        HTTPException s m \<Rightarrow> x
      | _ \<Rightarrow> HTTPException 500
               (case message_of x of Some m \<Rightarrow> m | None \<Rightarrow> js ''Failed to fetch note''))"

definition get_handler :: "env \<Rightarrow> store \<Rightarrow> user \<Rightarrow> jsstring \<Rightarrow> outcome \<times> store" where
  "get_handler e st u i =
     (case get_try e st u i of
        (Inl x, st1) \<Rightarrow> (Inl (get_catch x), st1)
      | (Inr r, st1) \<Rightarrow> (Inr r, st1))"

subsection \<open>The four operations\<close>

datatype request =
    Create raw_body
  | Update jsstring raw_body
  | GetOne jsstring
  | ListAll query

fun handle :: "env \<Rightarrow> store \<Rightarrow> user \<Rightarrow> request \<Rightarrow> outcome \<times> store" where
  "handle e st u (Create rb) = create_handler e st u rb"
| "handle e st u (Update i rb) = update_handler e st u i rb"
| "handle e st u (GetOne i) = get_handler e st u i"
| "handle e st u (ListAll q) = list_handler e st u q"

section \<open>Ownership and sample data\<close>

text \<open>Who owns which note: the identifier and the owner of every note, in store order.\<close>

definition owners :: "store \<Rightarrow> (jsstring \<times> jsstring) list" where
  "owners st = map (\<lambda>n. (noteId n, userId n)) (table st)"

text \<open>The note with a given identifier, as the store holds it.\<close>

definition stored :: "store \<Rightarrow> jsstring \<Rightarrow> Note option" where
  "stored st i = find (\<lambda>n. noteId n = i) (table st)"

text \<open>The store without the note of a given identifier.\<close>

definition without :: "jsstring \<Rightarrow> store \<Rightarrow> store" where
  "without i st = st\<lparr>table := filter (\<lambda>n. noteId n \<noteq> i) (table st)\<rparr>"

text \<open>Two users, a note of the first, a store that holds it, and the surroundings of a request.\<close>

definition alice :: user where
  "alice = \<lparr>uid = js ''alice''\<rparr>"

definition bob :: user where
  "bob = \<lparr>uid = js ''bob''\<rparr>"

definition sample_note :: Note where
  "sample_note =
     \<lparr>noteId = js ''12345678-1234-4123-8123-123456789abc'', title = js ''Shopping'',
      content = js ''milk'', userId = js ''alice'', createdAt = 10, updatedAt = 10\<rparr>"

definition sample_store :: store where
  "sample_store = \<lparr>table = [sample_note], calls = []\<rparr>"

definition sample_env :: env where
  "sample_env =
     \<lparr>now = 20, uuid = js ''aaaaaaaa-bbbb-4ccc-8ddd-eeeeeeeeeeee'', lib_message = js ''boom''\<rparr>"

text \<open>
  A store with 25 notes of the first user, numbered 10 to 34: the number is the last two
  digits of the identifier and the time of the last update.
\<close>

definition numbered_note :: "nat \<Rightarrow> Note" where
  "numbered_note k =
     \<lparr>noteId = js ''12345678-1234-4123-8123-1234567890'' @
                [0x30 + of_nat (k div 10), 0x30 + of_nat (k mod 10)],
      title = js ''Note'', content = [], userId = js ''alice'', createdAt = k, updatedAt = k\<rparr>"

definition crowded_store :: store where
  "crowded_store = \<lparr>table = map numbered_note [10..<35], calls = []\<rparr>"

definition page2_limit10 :: query where
  "page2_limit10 = [js ''page'' \<mapsto> js ''2'', js ''limit'' \<mapsto> js ''10'']"

text \<open>A page so far out that the offset of its first note is no double.\<close>

definition far_page :: query where
  "far_page = [js ''page'' \<mapsto> js ''9007199254740991'', js ''limit'' \<mapsto> js ''20'']"

section \<open>Facts about the values\<close>

subsection \<open>Rounding to a double\<close>

lemma round_half_even_near: "\<bar>of_int (round_half_even y) - y\<bar> \<le> 1 / 2"
proof -
  have "of_int \<lfloor>y\<rfloor> \<le> y" and "y < of_int \<lfloor>y\<rfloor> + 1"
    by linarith+
  then show ?thesis
    by (auto simp: round_half_even_def Let_def) 
qed

lemma round_half_even_of_int: "round_half_even (of_int k) = k"
  by (simp add: round_half_even_def)

lemma of_int_le_pow2: "m \<le> 2 ^ n \<Longrightarrow> (of_int m :: rat) \<le> 2 ^ n"
proof -
  assume "m \<le> 2 ^ n"
  then have "(of_int m :: rat) \<le> of_int (2 ^ n)"
    by (simp only: of_int_le_iff)
  then show ?thesis by simp
qed

lemma pow2_le_of_int: "2 ^ n \<le> m \<Longrightarrow> 2 ^ n \<le> (of_int m :: rat)"
proof -
  assume "2 ^ n \<le> m"
  then have "(of_int (2 ^ n) :: rat) \<le> of_int m"
    by (simp only: of_int_le_iff)
  then show ?thesis by simp
qed

lemma ilog2_bounds:
  assumes "0 < x"
  shows "2 powi (ilog2 x) \<le> x \<and> x < 2 powi (ilog2 x + 1)"
proof (cases "1 \<le> x")
  case True
  define m where "m = \<lfloor>x\<rfloor>"
  have m: "1 \<le> m" "of_int m \<le> x" "x < of_int (m + 1)"
    using True unfolding m_def by linarith+
  from bitlen_bounds [of m] m(1)
  have b: "2 ^ nat (bitlen m - 1) \<le> m" "m < 2 ^ nat (bitlen m)"
    by simp_all
  have p: "1 \<le> bitlen m"
    using m(1) bitlen_eq_zero_iff [of m] bitlen_nonneg [of m] by linarith
  have e: "ilog2 x = bitlen m - 1"
    using True by (simp add: ilog2_def m_def)
  have "(2::rat) powi (bitlen m - 1) = 2 ^ nat (bitlen m - 1)"
    using p by (simp add: power_int_def)
  also have "\<dots> \<le> of_int m"
    using b(1) by (rule pow2_le_of_int)
  finally have lo: "2 powi (ilog2 x) \<le> x"
    using m(2) e by simp
  have "m + 1 \<le> 2 ^ nat (bitlen m)"
    using b(2) by simp
  then have "(of_int (m + 1) :: rat) \<le> 2 ^ nat (bitlen m)"
    by (rule of_int_le_pow2)
  also have "\<dots> = 2 powi (bitlen m)"
    using p by (simp add: power_int_def)
  finally have hi: "x < 2 powi (ilog2 x + 1)"
    using m(3) e by simp
  from lo hi show ?thesis ..
next
  case False
  define y where "y = 1 / x"
  define m where "m = \<lceil>y\<rceil>"
  have y: "1 < y" "0 < y"
    using False assms by (simp_all add: y_def)
  have m: "2 \<le> m" "y \<le> of_int m" "of_int (m - 1) < y"
    using y(1) unfolding m_def by linarith+
  from bitlen_bounds [of "m - 1"] m(1)
  have b: "2 ^ nat (bitlen (m - 1) - 1) \<le> m - 1" "m - 1 < 2 ^ nat (bitlen (m - 1))"
    by simp_all
  define k where "k = bitlen (m - 1)"
  have p: "1 \<le> k"
    using m(1) bitlen_eq_zero_iff [of "m - 1"] bitlen_nonneg [of "m - 1"]
    unfolding k_def by linarith
  have e: "ilog2 x = - k"
    using False by (simp add: ilog2_def m_def y_def k_def)
  have "m \<le> 2 ^ nat k"
    using b(2) unfolding k_def by simp
  then have "(of_int m :: rat) \<le> 2 ^ nat k"
    by (rule of_int_le_pow2)
  with m(2) have "y \<le> 2 ^ nat k"
    by linarith
  then have "1 / 2 ^ nat k \<le> x"
    using assms by (simp add: y_def field_simps)
  moreover have "(2::rat) powi (- k) = 1 / 2 ^ nat k"
    using p by (simp add: power_int_def field_simps)
  ultimately have lo: "2 powi (ilog2 x) \<le> x"
    using e by simp
  have "2 ^ nat (k - 1) \<le> (of_int (m - 1) :: rat)"
    using b(1) unfolding k_def by (rule pow2_le_of_int)
  with m(3) have "2 ^ nat (k - 1) < y"
    by linarith
  then have "x < 1 / 2 ^ nat (k - 1)"
    using assms by (simp add: y_def field_simps)
  moreover have "(2::rat) powi (- k + 1) = 1 / 2 ^ nat (k - 1)"
  proof (cases "k = 1")
    case True
    then show ?thesis by simp
  next
    case False
    with p have "- k + 1 < 0" by simp
    then show ?thesis
      by (simp add: power_int_def field_simps)
  qed
  ultimately have hi: "x < 2 powi (ilog2 x + 1)"
    using e by simp
  from lo hi show ?thesis ..
qed

lemma pow2i_le_1: "e \<le> 0 \<Longrightarrow> (2::rat) powi e \<le> 1"
  using power_int_increasing [of e 0 "2::rat"] by simp

lemma pow2i_nonpos: "e \<le> 0 \<Longrightarrow> (2::rat) powi e = 1 / 2 ^ nat (- e)"
  by (cases "e = 0") (simp_all add: power_int_def field_simps)

lemma pow2i_nonneg: "0 \<le> e \<Longrightarrow> (2::rat) powi e = 2 ^ nat e"
  by (simp add: power_int_def)

lemma to_double_grid:
  assumes "x \<noteq> 0" and "- 1022 \<le> ilog2 \<bar>x\<bar>" and "ilog2 \<bar>x\<bar> \<le> 52"
    and "x * 2 ^ nat (52 - ilog2 \<bar>x\<bar>) = of_int k"
  shows "to_double x = x"
proof -
  define j where "j = nat (52 - ilog2 \<bar>x\<bar>)"
  have u: "(2::rat) powi (max (ilog2 \<bar>x\<bar>) (- 1022) - 52) = 1 / 2 ^ j"
    using assms(2,3) pow2i_nonpos [of "ilog2 \<bar>x\<bar> - 52"] by (simp add: j_def max_def)
  have "x / (1 / 2 ^ j) = of_int k"
    using assms(4) by (simp add: j_def)
  then have "of_int (round_half_even (x / (1 / 2 ^ j))) * (1 / 2 ^ j) = x"
    by (simp only: round_half_even_of_int) (simp add: field_simps)
  then show ?thesis
    using assms(1) by (simp add: to_double_def Let_def u)
qed

lemma to_double_of_int:
  assumes "\<bar>n\<bar> < 2 ^ 53"
  shows "to_double (of_int n) = of_int n"
proof (cases "n = 0")
  case True
  then show ?thesis by (simp add: to_double_def)
next
  case False
  define x :: rat where "x = of_int n"
  define e where "e = ilog2 \<bar>x\<bar>"
  have ax: "1 \<le> \<bar>x\<bar>" "\<bar>x\<bar> < 2 ^ 53"
  proof -
    have "1 \<le> \<bar>n\<bar>" using False by simp
    then have "(of_int 1 :: rat) \<le> of_int \<bar>n\<bar>"
      by (simp only: of_int_le_iff)
    then show "1 \<le> \<bar>x\<bar>" by (simp add: x_def)
    have "(of_int \<bar>n\<bar> :: rat) < of_int (2 ^ 53)"
      using assms by (simp only: of_int_less_iff)
    then show "\<bar>x\<bar> < 2 ^ 53" by (simp add: x_def)
  qed
  from ilog2_bounds [of "\<bar>x\<bar>"] ax(1)
  have b: "2 powi e \<le> \<bar>x\<bar>" "\<bar>x\<bar> < 2 powi (e + 1)"
    by (simp_all add: e_def)
  have e0: "0 \<le> e"
  proof (rule ccontr)
    assume "\<not> 0 \<le> e"
    then have "(2::rat) powi (e + 1) \<le> 1"
      by (intro pow2i_le_1) simp
    with b(2) ax(1) show False by linarith
  qed
  have e52: "e \<le> 52"
  proof (rule ccontr)
    assume "\<not> e \<le> 52"
    then have "(2::rat) powi 53 \<le> 2 powi e"
      by (intro power_int_increasing) simp_all
    with b(1) ax(2) show False by simp
  qed
  have "x * 2 ^ nat (52 - e) = of_int (n * 2 ^ nat (52 - e))"
    by (simp add: x_def)
  with e0 e52 False have "to_double x = x"
    by (intro to_double_grid [where k = "n * 2 ^ nat (52 - e)"]) (simp_all add: e_def x_def)
  then show ?thesis by (simp add: x_def)
qed

lemma Number_exact:
  assumes "\<bar>n\<bar> < 2 ^ 53"
  shows "Number n = Num n"
proof -
  have "(of_int \<bar>n\<bar> :: rat) < of_int (2 ^ 53)"
    using assms by (simp only: of_int_less_iff)
  then have "\<bar>of_int n :: rat\<bar> < 2 ^ 53"
    by simp
  moreover have "(2::rat) ^ 53 \<le> 2 ^ 1024"
    by (rule power_increasing) simp_all
  ultimately have "\<not> 2 ^ 1024 \<le> (of_int n :: rat)"
    and "\<not> (of_int n :: rat) \<le> - (2 ^ 1024)"
    by linarith+
  then show ?thesis
    by (simp add: Number_def to_double_of_int [OF assms])
qed

lemma to_double_near:
  assumes "0 < x" and "- 1022 \<le> ilog2 x"
  shows "\<bar>to_double x - x\<bar> \<le> 2 powi (ilog2 x - 52) / 2"
proof -
  define u :: rat where "u = 2 powi (ilog2 x - 52)"
  have u: "0 < u" by (simp add: u_def)
  have d: "to_double x = of_int (round_half_even (x / u)) * u"
    using assms by (simp add: to_double_def Let_def u_def max_def)
  have le: "\<bar>of_int (round_half_even (x / u)) - x / u\<bar> * u \<le> 1 / 2 * u"
    using round_half_even_near [of "x / u"] u by (intro mult_right_mono) simp_all
  have eq: "\<bar>of_int (round_half_even (x / u)) - x / u\<bar> * u =
      \<bar>of_int (round_half_even (x / u)) * u - x\<bar>"
  proof -
    have "\<bar>of_int (round_half_even (x / u)) - x / u\<bar> * u =
        \<bar>(of_int (round_half_even (x / u)) - x / u) * u\<bar>"
      using u by (simp add: abs_mult)
    also have "(of_int (round_half_even (x / u)) - x / u) * u =
        of_int (round_half_even (x / u)) * u - x"
      using u by (simp add: field_simps)
    finally show ?thesis .
  qed
  have "\<bar>of_int (round_half_even (x / u)) * u - x\<bar> \<le> 1 / 2 * u"
    using le unfolding eq .
  then show ?thesis
    unfolding d u_def by simp
qed

lemma ceiling_to_double_quotient:
  assumes "0 \<le> a" and "a < 2 ^ 53" and "1 \<le> b" and "b \<le> 100"
  shows "\<lceil>to_double (of_int a / of_int b)\<rceil> = \<lceil>(of_int a / of_int b :: rat)\<rceil>"
proof (cases "b dvd a")
  case True
  then obtain k where k: "a = b * k" ..
  with assms have "0 \<le> k"
    by (simp add: zero_le_mult_iff)
  moreover have "k \<le> a"
    using k assms \<open>0 \<le> k\<close> by (simp add: mult_le_cancel_right1)
  ultimately have "\<bar>k\<bar> < 2 ^ 53"
    using assms(2) by simp
  moreover have "(of_int a / of_int b :: rat) = of_int k"
    using k assms(3) by simp
  ultimately show ?thesis
    by (simp add: to_double_of_int)
next
  case False
  define x :: rat where "x = of_int a / of_int b"
  define k where "k = a div b"
  define r where "r = a mod b"
  define e where "e = ilog2 x"
  define u :: rat where "u = 2 powi (e - 52)"
  have bpos: "(0::rat) < of_int b"
    using assms(3) by simp
  have r: "1 \<le> r" "r \<le> b - 1"
  proof -
    have "0 \<le> r" "r < b" "r \<noteq> 0"
      using assms(3) False by (simp_all add: r_def mod_eq_0_iff_dvd)
    then show "1 \<le> r" "r \<le> b - 1" by simp_all
  qed
  have a: "a = k * b + r"
    by (simp add: k_def r_def)
  have xk: "x = of_int k + of_int r / of_int b"
    using bpos by (simp add: x_def a field_simps)
  have "(of_int 1 :: rat) \<le> of_int r" and "(of_int r :: rat) \<le> of_int (b - 1)"
    using r by (simp_all only: of_int_le_iff)
  then have fr: "1 / of_int b \<le> of_int r / (of_int b :: rat)"
    "of_int r / (of_int b :: rat) \<le> 1 - 1 / of_int b"
    using bpos by (simp_all add: field_simps)
  have apos: "1 \<le> a"
    using False assms(1) by (cases "a = 0") simp_all
  have xpos: "0 < x"
    using apos bpos by (simp add: x_def)
  have x100: "1 / 100 \<le> x"
  proof -
    have "(of_int 1 :: rat) \<le> of_int a" and "(of_int b :: rat) \<le> of_int 100"
      using apos assms(4) by (simp_all only: of_int_le_iff)
    then show ?thesis
      using bpos by (simp add: x_def field_simps)
  qed
  from ilog2_bounds [OF xpos]
  have b: "2 powi e \<le> x" "x < 2 powi (e + 1)"
    by (simp_all add: e_def)
  have elo: "- 1022 \<le> e"
  proof (rule ccontr)
    assume "\<not> - 1022 \<le> e"
    then have "(2::rat) powi (e + 1) \<le> 2 powi (- 7)"
      by (intro power_int_increasing) simp_all
    also have "\<dots> < 1 / 100"
      by (simp add: power_int_minus_divide)
    finally show False
      using b(2) x100 by linarith
  qed
  have upos: "0 < u"
    by (simp add: u_def)
  have near: "\<bar>to_double x - x\<bar> \<le> u / 2"
    using to_double_near [OF xpos] elo by (simp add: e_def u_def)
  have "of_int b * 2 powi e \<le> of_int b * x"
    using b(1) bpos by (intro mult_left_mono) simp_all
  also have "\<dots> = of_int a"
    using bpos by (simp add: x_def)
  also have "\<dots> < of_int (2 ^ 53)"
    using assms(2) by (simp only: of_int_less_iff)
  finally have lt: "of_int b * 2 powi e < (2::rat) ^ 53"
    by simp
  have p: "2 powi e = u * 2 ^ 52"
    by (simp add: u_def power_int_diff)
  have "of_int b * u * 2 ^ 52 < 2 * (2::rat) ^ 52"
    using lt unfolding p by (simp add: mult.assoc)
  then have "of_int b * u < 2"
    by (simp only: mult_less_cancel_right_pos [of "2 ^ 52"] zero_less_power zero_less_numeral)
  then have half: "u / 2 < 1 / of_int b"
    using bpos by (simp add: field_simps)
  have lo: "of_int k < to_double x"
    using near half fr(1) xk by linarith
  have hi: "to_double x < of_int k + 1"
    using near half fr(2) xk by linarith
  have "\<lceil>to_double x\<rceil> = k + 1"
    using lo hi by (intro ceiling_unique) simp_all
  moreover have "0 < 1 / (of_int b :: rat)"
    using bpos by simp
  then have "of_int k < x" and "x \<le> of_int k + 1"
    using fr xk by linarith+
  then have "\<lceil>x\<rceil> = k + 1"
    by (intro ceiling_unique) simp_all
  ultimately show ?thesis
    by (simp add: x_def)
qed

lemma Number_small [simp]: "\<bar>n\<bar> < 2 ^ 53 \<Longrightarrow> Number n = Num n"
  by (rule Number_exact)

lemma Math_ceil_div_exact:
  assumes "0 \<le> a" and "a < 2 ^ 53" and "1 \<le> b" and "b \<le> 100"
  shows "Math_ceil_div (Num a) (Num b) = Num \<lceil>real_of_int a / real_of_int b\<rceil>"
proof -
  have "\<lceil>(of_int a / of_int b :: rat)\<rceil> = \<lceil>real_of_int a / real_of_int b\<rceil>"
    by (simp add: ceiling_divide_eq_div)
  with ceiling_to_double_quotient [OF assms] assms(3) show ?thesis
    by simp
qed

lemma floor_rat_numeral: "\<lfloor>numeral a / numeral b :: rat\<rfloor> = numeral a div numeral b"
  by (metis floor_divide_of_int_eq of_int_numeral)

lemma bitlen_far: "bitlen 180143985094819800 = 58"
  by (simp add: compute_bitlen)

lemma far_product: "Number 180143985094819800 = Num 180143985094819808"
  by (simp add: Number_def to_double_def ilog2_def round_half_even_def Let_def bitlen_far
      floor_rat_numeral del: Number_small)

lemma bitlen_2_53: "bitlen 9007199254740993 = 54"
  by (simp add: compute_bitlen)

lemma Number_rounds: "Number 9007199254740993 = Num 9007199254740992"
  by (simp add: Number_def to_double_def ilog2_def round_half_even_def Let_def bitlen_2_53
      floor_rat_numeral del: Number_small)

subsection \<open>Strings and the numbers read from them\<close>

lemma trim_spaces: "trim (js ''   '') = []"
  by code_simp

lemma trim_long: "length (trim (replicate 256 (0x61 :: 16 word))) = 256"
  by code_simp

lemma js_eq_Nil: "(js s = []) = (s = [])"
  by (simp add: js_def)

lemma parseInt_samples:
  "parseInt (js ''-3'') = Num (- 3)" "parseInt (js ''500'') = Num 500"
  "parseInt (js ''0'') = Num 0" "parseInt (js ''abc'') = NaN"
  by (simp_all add: parseInt_def js_def isWhiteSpace_def isDigit_def digitValue_def)

text \<open>Beyond \<open>2^53\<close> the number read is the nearest double, not the digits.\<close>

lemma parseInt_rounds: "parseInt (js ''9007199254740993'') = Num 9007199254740992"
  by (simp add: parseInt_def js_def isWhiteSpace_def isDigit_def digitValue_def Number_rounds
      del: Number_small)

subsection \<open>Case folding and the character classes\<close>

lemma unat_toUpper:
  "unat (toUpper c) = (if 97 \<le> unat c \<and> unat c \<le> 122 then unat c - 32 else unat c)"
proof -
  have "unat (c - 0x20) = unat c - 32" if "97 \<le> unat c"
  proof -
    have "(0x20 :: 16 word) \<le> c"
      using that by (simp add: word_le_nat_alt)
    then show ?thesis
      by (simp add: unat_sub)
  qed
  then show ?thesis
    by (simp add: toUpper_def word_le_nat_alt)
qed

lemma unat_toLower:
  "unat (toLower c) = (if 65 \<le> unat c \<and> unat c \<le> 90 then unat c + 32 else unat c)"
proof -
  have "unat (c + 0x20) = unat c + 32" if "unat c \<le> 90"
  proof -
    have "unat c + unat (0x20 :: 16 word) < 2 ^ LENGTH(16)"
      using that by simp
    then have "unat (c + 0x20) = unat c + unat (0x20 :: 16 word)"
      by (simp only: unat_add_lem)
    then show ?thesis by simp
  qed
  then show ?thesis
    by (simp add: toLower_def word_le_nat_alt)
qed

lemma in_class_i_hex: "in_class_i hex c = hex_digit c"
  by (simp add: in_class_i_def hex_def hex_digit_def word_le_nat_alt unat_toUpper unat_toLower)
     presburger

lemma in_class_i_hyphen: "in_class_i hyphen c = (c = 0x2D)"
  by (simp add: in_class_i_def hyphen_def word_le_nat_alt word_unat_eq_iff unat_toUpper
      unat_toLower) presburger

lemma in_class_i_four: "in_class_i four c = (c = 0x34)"
  by (simp add: in_class_i_def four_def word_le_nat_alt word_unat_eq_iff unat_toUpper
      unat_toLower) presburger

lemma in_class_i_variant:
  "in_class_i variant c = (c \<in> {0x38, 0x39, 0x61, 0x62, 0x41, 0x42})"
proof -
  consider (lower) "97 \<le> unat c \<and> unat c \<le> 122"
    | (upper) "65 \<le> unat c \<and> unat c \<le> 90"
    | (other) "\<not> (97 \<le> unat c \<and> unat c \<le> 122) \<and> \<not> (65 \<le> unat c \<and> unat c \<le> 90)"
    by blast
  then show ?thesis
  proof cases
    case lower
    then show ?thesis
      by (simp add: in_class_i_def variant_def word_le_nat_alt word_unat_eq_iff unat_toUpper
          unat_toLower) presburger
  next
    case upper
    then show ?thesis
      by (simp add: in_class_i_def variant_def word_le_nat_alt word_unat_eq_iff unat_toUpper
          unat_toLower) presburger
  next
    case other
    then show ?thesis
      by (simp add: in_class_i_def variant_def word_le_nat_alt word_unat_eq_iff unat_toUpper
          unat_toLower) presburger
  qed
qed

lemma hex_digit_four: "hex_digit 0x34"
  by (simp add: hex_digit_def)

lemma hex_digit_variant: "c \<in> {0x38, 0x39, 0x61, 0x62, 0x41, 0x42} \<Longrightarrow> hex_digit c"
  by (auto simp: hex_digit_def)

subsection \<open>The matcher on a pattern put together from parts\<close>

lemma matches_One_Cons:
  "matches (One cls # r) s = (\<exists>c cs. s = c # cs \<and> in_class_i cls c \<and> matches r cs)"
  by (cases s) auto

lemma matches_Opt_Cons:
  "matches (Opt cls # r) s =
     ((\<exists>c cs. s = c # cs \<and> in_class_i cls c \<and> matches r cs) \<or> matches r s)"
  by (cases s) auto

lemma matches_append:
  "matches (ps @ qs) s = (\<exists>u v. s = u @ v \<and> matches ps u \<and> matches qs v)"
proof (induction ps arbitrary: s)
  case Nil
  show ?case by simp
next
  case (Cons p ps)
  have step: "(\<exists>c cs. s = c # cs \<and> in_class_i cls c \<and> matches (ps @ qs) cs) =
      (\<exists>u v. s = u @ v \<and> (\<exists>c cs. u = c # cs \<and> in_class_i cls c \<and> matches ps cs) \<and>
         matches qs v)"
    (is "?L = ?R") for cls
  proof
    assume ?L
    then obtain c cs where s: "s = c # cs" and c: "in_class_i cls c"
      and m: "matches (ps @ qs) cs"
      by blast
    from m obtain u v where "cs = u @ v" "matches ps u" "matches qs v"
      using Cons.IH by blast
    with s c have "s = (c # u) @ v \<and>
        (\<exists>c' cs'. c # u = c' # cs' \<and> in_class_i cls c' \<and> matches ps cs') \<and> matches qs v"
      by simp
    then show ?R by blast
  next
    assume ?R
    then obtain u v c cs where "s = u @ v" "u = c # cs" "in_class_i cls c" "matches ps cs"
      "matches qs v"
      by blast
    then have "s = c # (cs @ v) \<and> in_class_i cls c \<and> matches (ps @ qs) (cs @ v)"
      using Cons.IH by auto
    then show ?L by blast
  qed
  show ?case
  proof (cases p)
    case (One cls)
    then show ?thesis
      using step [of cls] by (simp only: append_Cons matches_One_Cons)
  next
    case (Opt cls)
    have "matches ((p # ps) @ qs) s =
        ((\<exists>c cs. s = c # cs \<and> in_class_i cls c \<and> matches (ps @ qs) cs) \<or>
         matches (ps @ qs) s)"
      using Opt by (simp only: append_Cons matches_Opt_Cons)
    also have "\<dots> =
        ((\<exists>u v. s = u @ v \<and> (\<exists>c cs. u = c # cs \<and> in_class_i cls c \<and> matches ps cs) \<and>
            matches qs v) \<or>
         (\<exists>u v. s = u @ v \<and> matches ps u \<and> matches qs v))"
      using step [of cls] Cons.IH [of s] by simp
    also have "\<dots> = (\<exists>u v. s = u @ v \<and> matches (p # ps) u \<and> matches qs v)"
      unfolding Opt matches_Opt_Cons by blast
    finally show ?thesis .
  qed
qed

lemma matches_appendI: "matches ps u \<Longrightarrow> matches qs v \<Longrightarrow> matches (ps @ qs) (u @ v)"
  unfolding matches_append by blast

lemma matches_appendE:
  assumes "matches (ps @ qs) s"
  obtains u v where "s = u @ v" and "matches ps u" and "matches qs v"
  using assms unfolding matches_append by blast

lemma matches_replicate:
  "matches (replicate n (One cls)) s = (length s = n \<and> list_all (in_class_i cls) s)"
proof (induction n arbitrary: s)
  case 0
  show ?case by auto
next
  case (Suc n)
  then show ?case by (cases s) auto
qed

lemma matches_Opt: "matches [Opt cls] s = (s = [] \<or> (\<exists>c. s = [c] \<and> in_class_i cls c))"
  by (cases s) auto

lemma matches_hex_group:
  "matches (replicate n (One hex)) g = (length g = n \<and> list_all hex_digit g)"
proof -
  have "in_class_i hex = hex_digit"
    by (rule ext) (rule in_class_i_hex)
  then show ?thesis
    by (simp add: matches_replicate)
qed

lemma hy_cases: "(\<exists>b. h = hy b) = (h = [] \<or> h = [0x2D])"
proof -
  have "(\<exists>b. h = hy b) = (h = hy True \<or> h = hy False)"
    by (metis (full_types))
  then show ?thesis
    by (auto simp: hy_def)
qed

lemma matches_hyphen: "matches [Opt hyphen] h = (\<exists>b. h = hy b)"
  unfolding hy_cases matches_Opt in_class_i_hyphen by auto

lemma matches_version_group:
  "matches ([One four] @ replicate 3 (One hex)) g =
     (length g = 4 \<and> hd g = 0x34 \<and> list_all hex_digit g)"
proof (cases g)
  case Nil
  then show ?thesis by simp
next
  case (Cons c cs)
  have "matches ([One four] @ replicate 3 (One hex)) g =
      (c = 0x34 \<and> length cs = 3 \<and> list_all hex_digit cs)"
    unfolding Cons append_Cons append_Nil matches_One_Cons in_class_i_four matches_hex_group
    by auto
  also have "\<dots> = (length g = 4 \<and> hd g = 0x34 \<and> list_all hex_digit g)"
    using hex_digit_four by (auto simp: Cons)
  finally show ?thesis .
qed

lemma matches_variant_group:
  "matches ([One variant] @ replicate 3 (One hex)) g =
     (length g = 4 \<and> hd g \<in> {0x38, 0x39, 0x61, 0x62, 0x41, 0x42} \<and> list_all hex_digit g)"
proof (cases g)
  case Nil
  then show ?thesis by simp
next
  case (Cons c cs)
  have "matches ([One variant] @ replicate 3 (One hex)) g =
      (c \<in> {0x38, 0x39, 0x61, 0x62, 0x41, 0x42} \<and> length cs = 3 \<and> list_all hex_digit cs)"
    unfolding Cons append_Cons append_Nil matches_One_Cons in_class_i_variant matches_hex_group
    by blast
  also have "\<dots> =
      (length g = 4 \<and> hd g \<in> {0x38, 0x39, 0x61, 0x62, 0x41, 0x42} \<and> list_all hex_digit g)"
    using hex_digit_variant [of c] unfolding Cons
    by (simp only: list.sel list.pred_inject length_Cons) auto
  finally show ?thesis .
qed

subsection \<open>The pattern accepts exactly the shape of the specification\<close>

lemma id_pattern_groups:
  "id_pattern =
     replicate 8 (One hex) @ [Opt hyphen] @ replicate 4 (One hex) @ [Opt hyphen] @
     ([One four] @ replicate 3 (One hex)) @ [Opt hyphen] @
     ([One variant] @ replicate 3 (One hex)) @ [Opt hyphen] @ replicate 12 (One hex)"
  by (simp only: id_pattern_def append_assoc)

lemma shape_matches:
  assumes "uuid_v4_shape s"
  shows "matches id_pattern s"
proof -
  from assms obtain g1 g2 g3 g4 g5 b1 b2 b3 b4 where
    s: "s = g1 @ hy b1 @ g2 @ hy b2 @ g3 @ hy b3 @ g4 @ hy b4 @ g5"
    and len: "length g1 = 8" "length g2 = 4" "length g3 = 4" "length g4 = 4" "length g5 = 12"
    and hexes: "list_all hex_digit (g1 @ g2 @ g3 @ g4 @ g5)"
    and ver: "hd g3 = 0x34"
    and var: "hd g4 \<in> {0x38, 0x39, 0x61, 0x62, 0x41, 0x42}"
    unfolding uuid_v4_shape_def assemble_def by blast
  have m1: "matches (replicate 8 (One hex)) g1"
    using len hexes by (simp add: matches_hex_group)
  have m2: "matches (replicate 4 (One hex)) g2"
    using len hexes by (simp add: matches_hex_group)
  have m3: "matches ([One four] @ replicate 3 (One hex)) g3"
    using len hexes ver unfolding matches_version_group by simp
  have m4: "matches ([One variant] @ replicate 3 (One hex)) g4"
    using len hexes var unfolding matches_variant_group by simp
  have m5: "matches (replicate 12 (One hex)) g5"
    using len hexes by (simp add: matches_hex_group)
  have h: "matches [Opt hyphen] (hy b)" for b
    unfolding matches_hyphen by blast
  show ?thesis
    unfolding id_pattern_groups s
    by (intro matches_appendI m1 m2 m3 m4 m5 h)
qed

lemma matches_shape:
  assumes "matches id_pattern s"
  shows "uuid_v4_shape s"
proof -
  from assms obtain g1 r1 where s1: "s = g1 @ r1" and m1: "matches (replicate 8 (One hex)) g1"
    and t1: "matches ([Opt hyphen] @ replicate 4 (One hex) @ [Opt hyphen] @
        ([One four] @ replicate 3 (One hex)) @ [Opt hyphen] @
        ([One variant] @ replicate 3 (One hex)) @ [Opt hyphen] @ replicate 12 (One hex)) r1"
    unfolding id_pattern_groups by (rule matches_appendE)
  from t1 obtain h1 r2 where s2: "r1 = h1 @ r2" and n1: "matches [Opt hyphen] h1"
    and t2: "matches (replicate 4 (One hex) @ [Opt hyphen] @
        ([One four] @ replicate 3 (One hex)) @ [Opt hyphen] @
        ([One variant] @ replicate 3 (One hex)) @ [Opt hyphen] @ replicate 12 (One hex)) r2"
    by (rule matches_appendE)
  from t2 obtain g2 r3 where s3: "r2 = g2 @ r3" and m2: "matches (replicate 4 (One hex)) g2"
    and t3: "matches ([Opt hyphen] @
        ([One four] @ replicate 3 (One hex)) @ [Opt hyphen] @
        ([One variant] @ replicate 3 (One hex)) @ [Opt hyphen] @ replicate 12 (One hex)) r3"
    by (rule matches_appendE)
  from t3 obtain h2 r4 where s4: "r3 = h2 @ r4" and n2: "matches [Opt hyphen] h2"
    and t4: "matches (([One four] @ replicate 3 (One hex)) @ [Opt hyphen] @
        ([One variant] @ replicate 3 (One hex)) @ [Opt hyphen] @ replicate 12 (One hex)) r4"
    by (rule matches_appendE)
  from t4 obtain g3 r5 where s5: "r4 = g3 @ r5"
    and m3: "matches ([One four] @ replicate 3 (One hex)) g3"
    and t5: "matches ([Opt hyphen] @
        ([One variant] @ replicate 3 (One hex)) @ [Opt hyphen] @ replicate 12 (One hex)) r5"
    by (rule matches_appendE)
  from t5 obtain h3 r6 where s6: "r5 = h3 @ r6" and n3: "matches [Opt hyphen] h3"
    and t6: "matches (([One variant] @ replicate 3 (One hex)) @ [Opt hyphen] @
        replicate 12 (One hex)) r6"
    by (rule matches_appendE)
  from t6 obtain g4 r7 where s7: "r6 = g4 @ r7"
    and m4: "matches ([One variant] @ replicate 3 (One hex)) g4"
    and t7: "matches ([Opt hyphen] @ replicate 12 (One hex)) r7"
    by (rule matches_appendE)
  from t7 obtain h4 g5 where s8: "r7 = h4 @ g5" and n4: "matches [Opt hyphen] h4"
    and m5: "matches (replicate 12 (One hex)) g5"
    by (rule matches_appendE)
  from n1 n2 n3 n4 obtain b1 b2 b3 b4 where
    hs: "h1 = hy b1" "h2 = hy b2" "h3 = hy b3" "h4 = hy b4"
    unfolding matches_hyphen by blast
  have s: "s = assemble g1 b1 g2 b2 g3 b3 g4 b4 g5"
    by (simp add: assemble_def s1 s2 s3 s4 s5 s6 s7 s8 hs)
  have len: "length g1 = 8 \<and> length g2 = 4 \<and> length g3 = 4 \<and> length g4 = 4 \<and> length g5 = 12"
    using m1 m2 m3 m4 m5
    by (simp only: matches_hex_group matches_version_group matches_variant_group)
  have hexes: "list_all hex_digit (g1 @ g2 @ g3 @ g4 @ g5)"
    using m1 m2 m3 m4 m5
    by (simp only: matches_hex_group matches_version_group matches_variant_group
        list_all_append)
  have ver: "hd g3 = 0x34"
    using m3 by (simp only: matches_version_group)
  have var: "hd g4 \<in> {0x38, 0x39, 0x61, 0x62, 0x41, 0x42}"
    using m4 by (simp only: matches_variant_group)
  from s len hexes ver var show ?thesis
    unfolding uuid_v4_shape_def by blast
qed

lemma matches_id_pattern_iff: "matches id_pattern s = uuid_v4_shape s"
  using shape_matches matches_shape by blast

lemma empty_not_matched: "\<not> matches id_pattern []"
  by code_simp

lemma invalid_id_iff: "invalid_id i = (\<not> uuid_v4_shape i)"
  using empty_not_matched by (auto simp: invalid_id_def matches_id_pattern_iff)

lemma sample_id_shape: "uuid_v4_shape (noteId sample_note)"
  unfolding matches_id_pattern_iff [symmetric] by code_simp

lemma abc_no_shape: "\<not> uuid_v4_shape (js ''abc'')"
  unfolding matches_id_pattern_iff [symmetric] by code_simp

section \<open>Facts about the store\<close>

lemma find_foreign:
  assumes "distinct (map noteId ns)" and "n \<in> set ns" and "userId n \<noteq> u"
  shows "find (\<lambda>m. noteId m = noteId n \<and> userId m = u) ns = None"
proof -
  have "inj_on noteId (set ns)"
    using assms(1) by (simp add: distinct_map)
  then have "m = n" if "m \<in> set ns" and "noteId m = noteId n" for m
    using that assms(2) by (auto dest: inj_onD)
  then show ?thesis
    using assms(3) by (auto simp: find_None_iff)
qed

lemma find_removed:
  "find (\<lambda>m. noteId m = i \<and> userId m = u) (filter (\<lambda>m. noteId m \<noteq> i) ns) = None"
  by (auto simp: find_None_iff)

lemma apply_update_fields [simp]:
  "noteId (apply_update e t c n) = noteId n"
  "userId (apply_update e t c n) = userId n"
  "createdAt (apply_update e t c n) = createdAt n"
  "updatedAt (apply_update e t c n) = now e"
  "title (apply_update e t c n) = data_field t (title n)"
  "content (apply_update e t c n) = data_field c (content n)"
  by (simp_all add: apply_update_def)

lemma find_map_update:
  "find (\<lambda>m. noteId m = i) (map (\<lambda>m. if noteId m = i then apply_update e t c m else m) ns) =
   map_option (apply_update e t c) (find (\<lambda>m. noteId m = i) ns)"
  by (induction ns) simp_all

lemma filter_map_update:
  "filter (\<lambda>m. noteId m \<noteq> i) (map (\<lambda>m. if noteId m = i then apply_update e t c m else m) ns) =
   filter (\<lambda>m. noteId m \<noteq> i) ns"
  by (induction ns) simp_all

lemma owners_map_update:
  "map (\<lambda>n. (noteId n, userId n))
     (map (\<lambda>m. if noteId m = i then apply_update e t c m else m) ns) =
   map (\<lambda>n. (noteId n, userId n)) ns"
  by (induction ns) simp_all

lemma prisma_note_update_ok:
  assumes "prisma_note_update e st i t c = (Inr n', st')"
  shows "\<exists>n. find (\<lambda>m. noteId m = i) (table st) = Some n \<and> n' = apply_update e t c n \<and>
           table st' = map (\<lambda>m. if noteId m = i then apply_update e t c m else m) (table st) \<and>
           calls st' = calls st @ [NoteUpdate i]"
  using assms
  by (auto simp: prisma_note_update_def logged_def Let_def split: if_splits option.splits)

lemma prisma_note_update_fail:
  assumes "prisma_note_update e st i t c = (Inl x, st')"
  shows "table st' = table st"
  using assms
  by (auto simp: prisma_note_update_def logged_def Let_def split: if_splits option.splits)

section \<open>Facts about the handlers\<close>

lemma get_handler_invalid:
  "invalid_id i \<Longrightarrow>
   get_handler e st u i = (Inl (HTTPException 400 (js ''Invalid note ID format'')), st)"
  by (simp add: get_handler_def get_try_def get_catch_def)

lemma get_handler_absent:
  "\<not> invalid_id i \<Longrightarrow> find (\<lambda>m. noteId m = i \<and> userId m = uid u) (table st) = None \<Longrightarrow>
   get_handler e st u i =
     (Inl (HTTPException 404 (js ''Note not found'')), logged (NoteFindFirst i (uid u)) st)"
  by (simp add: get_handler_def get_try_def get_catch_def prisma_note_findFirst_def)

lemma update_handler_not_json:
  "update_handler e st u i NotJson = (Inl (HTTPException 500 (lib_message e)), st)"
  by (simp add: update_handler_def update_try_def update_catch_def req_json_def)

lemma update_handler_invalid:
  "invalid_id i \<Longrightarrow>
   update_handler e st u i (Json b) =
     (Inl (HTTPException 400 (js ''Invalid note ID format'')), st)"
  by (simp add: update_handler_def update_try_def update_catch_def req_json_def)

lemma update_handler_absent:
  "\<not> invalid_id i \<Longrightarrow> find (\<lambda>m. noteId m = i \<and> userId m = uid u) (table st) = None \<Longrightarrow>
   update_handler e st u i (Json b) =
     (Inl (HTTPException 404 (js ''Note not found'')), logged (NoteFindFirst i (uid u)) st)"
  by (simp add: update_handler_def update_try_def update_catch_def req_json_def
      prisma_note_findFirst_def)

lemma update_handler_ok:
  assumes "update_handler e st u i (Json b) = (Inr r, st')"
  shows "\<exists>t c n. get_prop e b (js ''title'') = Inr t \<and> get_prop e b (js ''content'') = Inr c \<and>
           find (\<lambda>m. noteId m = i) (table st) = Some n \<and>
           find (\<lambda>m. noteId m = i \<and> userId m = uid u) (table st) \<noteq> None \<and>
           r = Reply 200 (SuccessData (select_fields (apply_update e t c n))) \<and>
           table st' = map (\<lambda>m. if noteId m = i then apply_update e t c m else m) (table st) \<and>
           calls st' = calls st @ [NoteFindFirst i (uid u), NoteUpdate i]"
proof -
  from assms obtain t c n' st1 where
    t: "get_prop e b (js ''title'') = Inr t" and c: "get_prop e b (js ''content'') = Inr c"
    and f: "find (\<lambda>m. noteId m = i \<and> userId m = uid u) (table st) \<noteq> None"
    and st1: "st1 = logged (NoteFindFirst i (uid u)) st"
    and up: "prisma_note_update e st1 i t c = (Inr n', st')"
    and r: "r = Reply 200 (SuccessData (select_fields n'))"
    by (auto simp: update_handler_def update_try_def req_json_def prisma_note_findFirst_def
        split: if_splits option.splits sum.splits prod.splits)
  from prisma_note_update_ok [OF up] st1 t c f r show ?thesis
    by (auto simp: logged_def)
qed

text \<open>
  The two \<open>catch\<close> blocks that look at what they caught hand an \<open>HTTPException\<close> on as it is;
  the other two turn it into a 500 that keeps only the message.
\<close>

lemma update_and_get_pass_classified:
  "update_catch (HTTPException s m) = HTTPException s m"
  "get_catch (HTTPException s m) = HTTPException s m"
  by (simp_all add: update_catch_def get_catch_def)

lemma create_and_list_rewrap_classified:
  "create_catch (HTTPException s m) = HTTPException 500 m"
  "list_catch (HTTPException s m) = HTTPException 500 m"
  by (simp_all add: create_catch_def list_catch_def)

lemma parse_page_range: "parse_page q = Num p \<Longrightarrow> 1 \<le> p"
  by (cases "parseInt (the (q (js ''page'')))")
     (auto simp: parse_page_def split: option.splits if_splits)

lemma parse_limit_range: "parse_limit q = Num l \<Longrightarrow> 1 \<le> l \<and> l \<le> 100"
  by (cases "parseInt (the (q (js ''limit'')))")
     (auto simp: parse_limit_def split: option.splits if_splits)

lemma parse_limit_finite: "parse_limit q \<noteq> PosInf" "parse_limit q \<noteq> NegInf"
  by (cases "parseInt (the (q (js ''limit'')))";
      auto simp: parse_limit_def split: option.splits if_splits)+

lemma parse_page_not_NegInf: "parse_page q \<noteq> NegInf"
  by (cases "parseInt (the (q (js ''page'')))";
      auto simp: parse_page_def split: option.splits if_splits)

lemma parse_pagination_Num:
  "parse_page q = Num p \<Longrightarrow> parse_limit q = Num l \<Longrightarrow>
   parse_pagination q = Inr (Num p, Num l)"
  using parse_page_range [of q p] parse_limit_range [of q l]
  by (simp add: parse_pagination_def)

lemma parse_pagination_NaN:
  "parse_page q = NaN \<or> parse_limit q = NaN \<Longrightarrow>
   parse_pagination q = Inl (HTTPException 400 (js ''Invalid pagination parameters''))"
  by (auto simp: parse_pagination_def)

lemma parse_pagination_Inr:
  assumes "parse_pagination q = Inr (P, L)"
  shows "\<exists>l. L = Num l \<and> 1 \<le> l \<and> l \<le> 100 \<and> parse_limit q = L \<and> parse_page q = P \<and>
           ((\<exists>p. P = Num p \<and> 1 \<le> p) \<or> P = PosInf)"
proof -
  from assms have pl: "parse_page q = P" "parse_limit q = L"
    and n: "\<not> isNaN P" "\<not> isNaN L"
    by (auto simp: parse_pagination_def Let_def split: if_splits)
  from n(2) parse_limit_finite [of q] pl(2) obtain l where l: "L = Num l"
    by (cases L) auto
  from n(1) parse_page_not_NegInf [of q] pl(1) have "(\<exists>p. P = Num p) \<or> P = PosInf"
    by (cases P) auto
  with l pl parse_limit_range [of q l] parse_page_range [of q] show ?thesis
    by auto
qed

lemma parse_page2_limit10: "parse_pagination page2_limit10 = Inr (Num 2, Num 10)"
  by (simp add: page2_limit10_def parse_pagination_def parse_page_def parse_limit_def
      parseInt_def js_def isWhiteSpace_def isDigit_def digitValue_def)

lemma table_logged [simp]: "table (logged c st) = table st"
  by (simp add: logged_def)

lemma calls_logged [simp]: "calls (logged c st) = calls st @ [c]"
  by (simp add: logged_def)

lemma list_handler_success:
  assumes "list_handler e st u q = (Inr r, st')"
  shows "\<exists>p l s. parse_pagination q = Inr (Num p, Num l) \<and> 1 \<le> p \<and> 1 \<le> l \<and> l \<le> 100 \<and>
           js_times (js_minus (Num p) (Num 1)) (Num l) = Num s \<and> 0 \<le> s \<and>
           st' = logged (NoteCount (uid u)) (logged (NoteFindMany (uid u) (Num s) (Num l)) st) \<and>
           r = Reply 200 (SuccessPage
                 (map select_fields (take (nat l) (drop (nat s)
                    (sort_key (\<lambda>n. - int (updatedAt n))
                       (filter (\<lambda>n. userId n = uid u) (table st))))))
                 \<lparr>total = Number (int (length (filter (\<lambda>n. userId n = uid u) (table st)))),
                  page = Num p, limit = Num l,
                  totalPages = Math_ceil_div
                    (Number (int (length (filter (\<lambda>n. userId n = uid u) (table st))))) (Num l),
                  hasNextPage = js_less (Num p) (Math_ceil_div
                    (Number (int (length (filter (\<lambda>n. userId n = uid u) (table st))))) (Num l)),
                  hasPreviousPage = js_less (Num 1) (Num p)\<rparr>)"
proof (cases "parse_pagination q")
  case (Inl x)
  with assms show ?thesis
    by (simp add: list_handler_def list_try_def)
next
  case (Inr pl)
  obtain P L where pl: "pl = (P, L)" by (cases pl)
  from parse_pagination_Inr [of q P L] Inr pl obtain l where
    l: "L = Num l" "1 \<le> l" "l \<le> 100" and P: "(\<exists>p. P = Num p \<and> 1 \<le> p) \<or> P = PosInf"
    by auto
  from P show ?thesis
  proof
    assume "P = PosInf"
    with assms Inr pl l show ?thesis
      by (simp add: list_handler_def list_try_def prisma_note_findMany_def
          prisma_note_count_def Let_def)
  next
    assume "\<exists>p. P = Num p \<and> 1 \<le> p"
    then obtain p where p: "P = Num p" "1 \<le> p" by blast
    show ?thesis
    proof (cases "js_times (js_minus (Num p) (Num 1)) (Num l)")
      case (Num s)
      with assms Inr pl l p show ?thesis
        by (auto simp: list_handler_def list_try_def prisma_note_findMany_def
            prisma_note_count_def Let_def simp del: js_times.simps js_minus.simps
            split: if_splits)
    next
      case NaN
      with assms Inr pl l p show ?thesis
        by (simp add: list_handler_def list_try_def prisma_note_findMany_def
            prisma_note_count_def Let_def del: js_times.simps js_minus.simps)
    next
      case PosInf
      with assms Inr pl l p show ?thesis
        by (simp add: list_handler_def list_try_def prisma_note_findMany_def
            prisma_note_count_def Let_def del: js_times.simps js_minus.simps)
    next
      case NegInf
      with assms Inr pl l p show ?thesis
        by (simp add: list_handler_def list_try_def prisma_note_findMany_def
            prisma_note_count_def Let_def del: js_times.simps js_minus.simps)
    qed
  qed
qed

lemma skip_exact:
  assumes "1 \<le> p" and "1 \<le> l" and "(p - 1) * l < 2 ^ 53"
  shows "js_times (js_minus (Num p) (Num 1)) (Num l) = Num ((p - 1) * l)"
proof -
  have "0 \<le> p - 1" using assms(1) by simp
  moreover have "p - 1 \<le> (p - 1) * l"
    using assms(1,2) by (simp add: mult_le_cancel_left1)
  ultimately have "\<bar>p - 1\<bar> < 2 ^ 53"
    using assms(3) by linarith
  moreover have "\<bar>(p - 1) * l\<bar> < 2 ^ 53"
    using assms \<open>0 \<le> p - 1\<close> by (simp add: abs_mult)
  ultimately show ?thesis
    by (simp del: Number_small add: Number_exact)
qed

lemma list_handler_ok:
  assumes "parse_pagination q = Inr (Num p, Num l)" and "(p - 1) * l < 2 ^ 53"
  shows "\<exists>d pg st'. list_handler e st u q = (Inr (Reply 200 (SuccessPage d pg)), st')"
proof -
  from parse_pagination_Inr [OF assms(1)] have r: "1 \<le> p" "1 \<le> l"
    by auto
  then have "0 \<le> (p - 1) * l"
    by simp
  with assms(1) skip_exact [OF r assms(2)] show ?thesis
    by (simp add: list_handler_def list_try_def prisma_note_findMany_def
        prisma_note_count_def Let_def del: js_times.simps js_minus.simps)
qed

lemma crowd_count: "length (filter (\<lambda>n. userId n = uid alice) (table crowded_store)) = 25"
  by code_simp

lemma create_handler_owners:
  "owners (snd (create_handler e st u rb)) = owners st \<or>
   owners (snd (create_handler e st u rb)) = owners st @ [(uuid e, uid u)] \<and>
   uuid e \<notin> set (map fst (owners st))"
  by (auto simp: create_handler_def create_try_def prisma_note_create_def logged_def owners_def
      Let_def split: sum.splits prod.splits json.splits if_splits)

lemma update_handler_owners: "owners (snd (update_handler e st u i rb)) = owners st"
proof (cases "update_handler e st u i rb")
  case (Pair out st')
  show ?thesis
  proof (cases out)
    case (Inr r)
    with Pair obtain b where "rb = Json b"
      by (cases rb) (auto simp: update_handler_not_json)
    with Pair Inr update_handler_ok [of e st u i b r st'] show ?thesis
      by (auto simp: owners_def owners_map_update)
  next
    case (Inl x)
    with Pair show ?thesis
      by (auto simp: update_handler_def update_try_def prisma_note_findFirst_def logged_def
          owners_def dest!: prisma_note_update_fail
          split: sum.splits prod.splits if_splits option.splits)
  qed
qed

lemma get_handler_owners: "owners (snd (get_handler e st u i)) = owners st"
  by (auto simp: get_handler_def get_try_def prisma_note_findFirst_def logged_def owners_def
      split: option.splits)

lemma list_handler_owners: "owners (snd (list_handler e st u q)) = owners st"
  by (auto simp: list_handler_def list_try_def prisma_note_findMany_def prisma_note_count_def
      logged_def owners_def Let_def split: sum.splits prod.splits jsnumber.splits)

text \<open>
  What the creation and the list can answer at all, and what becomes of a title in the
  creation and in the update.
\<close>

lemma create_handler_status:
  "status_of (fst (create_handler e st u rb)) = 201 \<or>
   status_of (fst (create_handler e st u rb)) = 500"
  by (auto simp: create_handler_def create_try_def create_catch_def prisma_note_create_def
      Let_def split: sum.splits prod.splits json.splits if_splits)

lemma list_handler_status:
  "status_of (fst (list_handler e st u q)) = 200 \<or>
   status_of (fst (list_handler e st u q)) = 500"
  by (auto simp: list_handler_def list_try_def list_catch_def Let_def
      split: sum.splits prod.splits)

lemma create_blank_title:
  assumes "get_prop e b (js ''title'') = Inr (Some (JStr t))" and "length (trim t) = 0"
  shows "create_handler e st u (Json b) =
           (Inl (HTTPException 500 (js ''Title is required'')), st)"
  using assms
  by (simp add: create_handler_def create_try_def create_catch_def req_json_def)

lemma create_long_title:
  assumes "get_prop e b (js ''title'') = Inr (Some (JStr t))" and "length (trim t) \<noteq> 0"
    and "length t > 255"
  shows "create_handler e st u (Json b) =
           (Inl (HTTPException 500 (js ''Title is too long'')), st)"
proof -
  from assms(2) have "t \<noteq> []"
    by (auto simp: trim_def)
  with assms show ?thesis
    by (simp add: create_handler_def create_try_def create_catch_def req_json_def)
qed

lemma update_stores_any_title:
  assumes "\<not> invalid_id i"
    and "find (\<lambda>m. noteId m = i \<and> userId m = uid u) (table st) = Some n"
  shows "\<exists>r st'. update_handler e st u i (Json (JObj [(js ''title'', JStr t)])) = (Inr r, st') \<and>
           status_of (Inr r) = 200 \<and> map_option title (stored st' i) = Some t"
proof -
  from assms(2) have "\<exists>m. find (\<lambda>m. noteId m = i) (table st) = Some m"
    by (cases "find (\<lambda>m. noteId m = i) (table st)") (auto simp: find_None_iff find_Some_iff)
  then obtain m where m: "find (\<lambda>m. noteId m = i) (table st) = Some m"
    by blast
  have k: "js ''content'' \<noteq> js ''title''"
    by (simp add: js_def)
  show ?thesis
    using assms m k
    by (simp add: update_handler_def update_try_def req_json_def prisma_note_findFirst_def
        prisma_note_update_def logged_def Let_def stored_def find_map_update)
qed

text \<open>The identifiers of the notes stay distinct under every operation.\<close>

lemma owners_ids: "map fst (owners st) = map noteId (table st)"
  by (simp add: owners_def comp_def)

lemma handle_keeps_ids_distinct:
  assumes "distinct (map noteId (table st))"
  shows "distinct (map noteId (table (snd (handle e st u r))))"
proof -
  have "owners (snd (handle e st u r)) = owners st \<or>
      owners (snd (handle e st u r)) = owners st @ [(uuid e, uid u)] \<and>
      uuid e \<notin> set (map fst (owners st))"
  proof (cases r)
    case (Create rb)
    then show ?thesis using create_handler_owners [of e st u rb] by simp
  next
    case (Update i rb)
    then show ?thesis by (simp add: update_handler_owners)
  next
    case (GetOne i)
    then show ?thesis by (simp add: get_handler_owners)
  next
    case (ListAll q)
    then show ?thesis by (simp add: list_handler_owners)
  qed
  then have "map fst (owners (snd (handle e st u r))) = map fst (owners st) \<or>
      map fst (owners (snd (handle e st u r))) = map fst (owners st) @ [uuid e] \<and>
      uuid e \<notin> set (map fst (owners st))"
    by auto
  with assms show ?thesis
    unfolding owners_ids by auto
qed

section \<open>The claims\<close>

text \<open>
  C1. A failure that a handler has classified as 400 or 404 should reach the caller with that
  status. The handlers of the update and of the single note do so. The handlers of the
  creation and of the list do not: their \<open>catch\<close> block throws the \<open>HTTPException\<close> it caught
  again as a 500. A creation with the body \<open>{}\<close> is classified 400 ("Title is required") and
  answered 500; a list with \<open>?page=abc\<close> is classified 400 ("Invalid pagination parameters")
  and answered 500.
\<close>

theorem create_and_list_rewrap_400:
  "fst (create_try e st u (Json (JObj []))) =
     Inl (HTTPException 400 (js ''Title is required'')) \<and>
   create_handler e st u (Json (JObj [])) =
     (Inl (HTTPException 500 (js ''Title is required'')), st) \<and>
   fst (list_try e st u [js ''page'' \<mapsto> js ''abc'']) =
     Inl (HTTPException 400 (js ''Invalid pagination parameters'')) \<and>
   list_handler e st u [js ''page'' \<mapsto> js ''abc''] =
     (Inl (HTTPException 500 (js ''Invalid pagination parameters'')), st)"
  by (simp add: create_handler_def create_try_def create_catch_def req_json_def
      list_handler_def list_try_def list_catch_def parse_pagination_def parse_page_def
      parse_limit_def parseInt_def js_def isWhiteSpace_def isDigit_def)

theorem create_and_list_rewrap_400_witness:
  "status_of (fst (create_try sample_env sample_store bob (Json (JObj [])))) = 400 \<and>
   status_of (fst (create_handler sample_env sample_store bob (Json (JObj [])))) = 500 \<and>
   status_of (fst (list_try sample_env sample_store bob [js ''page'' \<mapsto> js ''abc''])) = 400 \<and>
   status_of (fst (list_handler sample_env sample_store bob [js ''page'' \<mapsto> js ''abc''])) = 500"
  using create_and_list_rewrap_400 [of sample_env sample_store bob]
  by simp

text \<open>
  C2. A creation or an update whose title is empty after trimming should be answered 400
  "Title is required", and one whose title is longer than 255 should be answered 400 "Title
  is too long". The creation makes both checks and then answers 500, with the message kept
  (the \<open>catch\<close> block of C1). The update makes neither check: an update of one's own note with
  the title \<open>""\<close> is answered 200 and the empty title is stored.
\<close>

theorem title_checks_are_not_answered_400:
  "create_handler e st u (Json (JObj [(js ''title'', JStr (js ''   ''))])) =
     (Inl (HTTPException 500 (js ''Title is required'')), st) \<and>
   create_handler e st u (Json (JObj [(js ''title'', JStr (replicate 256 0x61))])) =
     (Inl (HTTPException 500 (js ''Title is too long'')), st) \<and>
   status_of (fst (update_handler sample_env sample_store alice (noteId sample_note)
     (Json (JObj [(js ''title'', JStr [])])))) = 200 \<and>
   map title (table (snd (update_handler sample_env sample_store alice (noteId sample_note)
     (Json (JObj [(js ''title'', JStr [])]))))) = [[]]"
proof -
  have a: "create_handler e st u (Json (JObj [(js ''title'', JStr (js ''   ''))])) =
     (Inl (HTTPException 500 (js ''Title is required'')), st)"
    by (simp add: create_handler_def create_try_def create_catch_def req_json_def trim_spaces)
  have b: "create_handler e st u (Json (JObj [(js ''title'', JStr (replicate 256 0x61))])) =
     (Inl (HTTPException 500 (js ''Title is too long'')), st)"
    using trim_long
    by (simp add: create_handler_def create_try_def create_catch_def req_json_def)
  have c: "status_of (fst (update_handler sample_env sample_store alice (noteId sample_note)
     (Json (JObj [(js ''title'', JStr [])])))) = 200"
    by code_simp
  have d: "map title (table (snd (update_handler sample_env sample_store alice
     (noteId sample_note) (Json (JObj [(js ''title'', JStr [])]))))) = [[]]"
    by code_simp
  from a b c d show ?thesis by blast
qed

theorem title_checks_are_not_answered_400_witness:
  "status_of (fst (create_handler sample_env sample_store alice
     (Json (JObj [(js ''title'', JStr (js ''   ''))])))) = 500 \<and>
   status_of (fst (create_handler sample_env sample_store alice
     (Json (JObj [(js ''title'', JStr (replicate 256 0x61))])))) = 500 \<and>
   status_of (fst (update_handler sample_env sample_store alice (noteId sample_note)
     (Json (JObj [(js ''title'', JStr [])])))) = 200"
  using title_checks_are_not_answered_400 [of sample_env sample_store alice]
  by simp

text \<open>
  C3, as amended. A note of user A, with an identifier of the shape of the specification in
  a store whose identifiers are distinct, asked for by another user B: the handler of the
  single note answers 404 "Note not found", and so does the handler of the update whenever the
  body of the request is JSON. Either answer is the one given when the store holds no note
  of that identifier, and the store is only read. (An update whose body is not JSON is
  answered 500 before the note is looked up.)
\<close>

theorem foreign_note_is_404:
  assumes "n \<in> set (table st)" and "userId n \<noteq> uid u"
    and "distinct (map noteId (table st))" and "uuid_v4_shape (noteId n)"
  shows "get_handler e st u (noteId n) =
           (Inl (HTTPException 404 (js ''Note not found'')),
            logged (NoteFindFirst (noteId n) (uid u)) st) \<and>
         update_handler e st u (noteId n) (Json b) =
           (Inl (HTTPException 404 (js ''Note not found'')),
            logged (NoteFindFirst (noteId n) (uid u)) st) \<and>
         fst (get_handler e (without (noteId n) st) u (noteId n)) =
           fst (get_handler e st u (noteId n)) \<and>
         fst (update_handler e (without (noteId n) st) u (noteId n) (Json b)) =
           fst (update_handler e st u (noteId n) (Json b))"
proof -
  have v: "\<not> invalid_id (noteId n)"
    using assms(4) by (simp add: invalid_id_iff)
  have a: "find (\<lambda>m. noteId m = noteId n \<and> userId m = uid u) (table st) = None"
    using assms(1-3) by (simp add: find_foreign)
  have b: "find (\<lambda>m. noteId m = noteId n \<and> userId m = uid u)
      (table (without (noteId n) st)) = None"
    by (simp add: without_def find_removed)
  show ?thesis
    by (simp add: get_handler_absent [OF v a] get_handler_absent [OF v b]
        update_handler_absent [OF v a] update_handler_absent [OF v b])
qed

theorem foreign_note_is_404_witness:
  "sample_note \<in> set (table sample_store) \<and> userId sample_note \<noteq> uid bob \<and>
   distinct (map noteId (table sample_store)) \<and> uuid_v4_shape (noteId sample_note) \<and>
   status_of (fst (get_handler sample_env sample_store bob (noteId sample_note))) = 404 \<and>
   status_of (fst (update_handler sample_env sample_store bob (noteId sample_note)
     (Json (JObj [(js ''title'', JStr (js ''Mine''))])))) = 404"
proof -
  have h1: "sample_note \<in> set (table sample_store)"
    by (simp add: sample_store_def)
  have h2: "userId sample_note \<noteq> uid bob"
    by (simp add: sample_note_def bob_def js_def)
  have h3: "distinct (map noteId (table sample_store))"
    by (simp add: sample_store_def)
  note h4 = sample_id_shape
  from foreign_note_is_404 [OF h1 h2 h3 h4, of sample_env "JObj [(js ''title'', JStr (js ''Mine''))]"]
    h1 h2 h3 h4
  show ?thesis by simp
qed

theorem foreign_update_not_json_counterexample:
  "sample_note \<in> set (table sample_store) \<and> userId sample_note \<noteq> uid bob \<and>
   uuid_v4_shape (noteId sample_note) \<and>
   status_of (fst (update_handler sample_env sample_store bob (noteId sample_note) NotJson)) = 500"
  using sample_id_shape
  by (simp add: update_handler_not_json sample_store_def sample_note_def bob_def js_def)

text \<open>
  C4, as amended. For an identifier that has not the shape of the specification (32
  hexadecimal digits of either case in groups of 8, 4, 4, 4 and 12, the version digit 4, the
  variant digit one of 8, 9, a, b, a hyphen or none between two groups), the handler of the
  single note answers 400 "Invalid note ID format", and so does the handler of the update
  whenever the body of the request is JSON; an update whose body is not JSON is answered
  500. In all three cases the store is as before: no call has been made on it.
\<close>

theorem malformed_id_is_400:
  assumes "\<not> uuid_v4_shape i"
  shows "get_handler e st u i =
           (Inl (HTTPException 400 (js ''Invalid note ID format'')), st) \<and>
         update_handler e st u i (Json b) =
           (Inl (HTTPException 400 (js ''Invalid note ID format'')), st) \<and>
         update_handler e st u i NotJson = (Inl (HTTPException 500 (lib_message e)), st)"
  using assms
  by (simp add: invalid_id_iff get_handler_invalid update_handler_invalid
      update_handler_not_json)

theorem malformed_id_is_400_witness:
  "\<not> uuid_v4_shape (js ''abc'') \<and>
   status_of (fst (get_handler sample_env sample_store alice (js ''abc''))) = 400 \<and>
   status_of (fst (update_handler sample_env sample_store alice (js ''abc'') (Json (JObj [])))) = 400 \<and>
   calls (snd (get_handler sample_env sample_store alice (js ''abc''))) = [] \<and>
   calls (snd (update_handler sample_env sample_store alice (js ''abc'') (Json (JObj [])))) = []"
  using malformed_id_is_400 [OF abc_no_shape, of sample_env sample_store alice "JObj []"]
    abc_no_shape
  by (simp add: sample_store_def)

theorem malformed_id_not_json_counterexample:
  "\<not> uuid_v4_shape (js ''abc'') \<and>
   status_of (fst (update_handler sample_env sample_store alice (js ''abc'') NotJson)) = 500"
  using abc_no_shape by (simp add: update_handler_not_json)

text \<open>
  C5, as amended. The pagination of the list: a \<open>page\<close> that is absent or empty gives page 1,
  a \<open>limit\<close> that is absent or empty gives limit 20; a \<open>page\<close> whose digits \<open>parseInt\<close> reads as
  \<open>n\<close> gives the larger of 1 and \<open>n\<close>, a \<open>limit\<close> read as \<open>n\<close> gives \<open>n\<close> brought into 1 to 100;
  a \<open>page\<close> or \<open>limit\<close> that is not empty and in which \<open>parseInt\<close> finds no number is classified
  as the failure 400 "Invalid pagination parameters"; in every other case the parser gives a
  page of at least 1 and a limit from 1 to 100.
\<close>

theorem pagination_parser:
  "(q (js ''page'') = None \<or> q (js ''page'') = Some [] \<longrightarrow> parse_page q = Num 1) \<and>
   (q (js ''limit'') = None \<or> q (js ''limit'') = Some [] \<longrightarrow> parse_limit q = Num 20) \<and>
   (\<forall>s n. q (js ''page'') = Some s \<and> s \<noteq> [] \<and> parseInt s = Num n \<longrightarrow>
      parse_page q = Num (max 1 n)) \<and>
   (\<forall>s n. q (js ''limit'') = Some s \<and> s \<noteq> [] \<and> parseInt s = Num n \<longrightarrow>
      parse_limit q = Num (min 100 (max 1 n))) \<and>
   (\<forall>s. (q (js ''page'') = Some s \<or> q (js ''limit'') = Some s) \<and> s \<noteq> [] \<and>
        parseInt s = NaN \<longrightarrow>
      parse_pagination q = Inl (HTTPException 400 (js ''Invalid pagination parameters''))) \<and>
   (\<forall>p l. parse_page q = Num p \<and> parse_limit q = Num l \<longrightarrow>
      parse_pagination q = Inr (Num p, Num l) \<and> 1 \<le> p \<and> 1 \<le> l \<and> l \<le> 100)"
proof -
  have a: "q (js ''page'') = None \<or> q (js ''page'') = Some [] \<longrightarrow> parse_page q = Num 1"
    by (auto simp: parse_page_def)
  have b: "q (js ''limit'') = None \<or> q (js ''limit'') = Some [] \<longrightarrow> parse_limit q = Num 20"
    by (auto simp: parse_limit_def)
  have c: "\<forall>s n. q (js ''page'') = Some s \<and> s \<noteq> [] \<and> parseInt s = Num n \<longrightarrow>
      parse_page q = Num (max 1 n)"
    by (auto simp: parse_page_def)
  have d: "\<forall>s n. q (js ''limit'') = Some s \<and> s \<noteq> [] \<and> parseInt s = Num n \<longrightarrow>
      parse_limit q = Num (min 100 (max 1 n))"
    by (auto simp: parse_limit_def)
  have "parse_page q = NaN \<or> parse_limit q = NaN"
    if "(q (js ''page'') = Some s \<or> q (js ''limit'') = Some s) \<and> s \<noteq> [] \<and> parseInt s = NaN"
    for s
    using that by (auto simp: parse_page_def parse_limit_def)
  then have e: "\<forall>s. (q (js ''page'') = Some s \<or> q (js ''limit'') = Some s) \<and> s \<noteq> [] \<and>
        parseInt s = NaN \<longrightarrow>
      parse_pagination q = Inl (HTTPException 400 (js ''Invalid pagination parameters''))"
    using parse_pagination_NaN by blast
  have f: "\<forall>p l. parse_page q = Num p \<and> parse_limit q = Num l \<longrightarrow>
      parse_pagination q = Inr (Num p, Num l) \<and> 1 \<le> p \<and> 1 \<le> l \<and> l \<le> 100"
    using parse_pagination_Num parse_page_range parse_limit_range by blast
  from a b c d e f show ?thesis by blast
qed

theorem pagination_parser_witness:
  "parse_pagination Map.empty = Inr (Num 1, Num 20) \<and>
   parseInt (js ''-3'') = Num (- 3) \<and> parseInt (js ''500'') = Num 500 \<and>
   parse_pagination [js ''page'' \<mapsto> js ''-3'', js ''limit'' \<mapsto> js ''500''] = Inr (Num 1, Num 100) \<and>
   parseInt (js ''0'') = Num 0 \<and>
   parse_pagination [js ''limit'' \<mapsto> js ''0''] = Inr (Num 1, Num 1) \<and>
   parseInt (js ''abc'') = NaN \<and>
   parse_pagination [js ''page'' \<mapsto> js ''abc''] =
     Inl (HTTPException 400 (js ''Invalid pagination parameters'')) \<and>
   parse_pagination [js ''limit'' \<mapsto> js ''abc''] =
     Inl (HTTPException 400 (js ''Invalid pagination parameters''))"
proof -
  have k: "js ''page'' \<noteq> js ''limit''"
    by (simp add: js_def)
  have a: "parse_pagination Map.empty = Inr (Num 1, Num 20)"
    using pagination_parser [of Map.empty] by simp
  have b: "parse_pagination [js ''page'' \<mapsto> js ''-3'', js ''limit'' \<mapsto> js ''500''] = Inr (Num 1, Num 100)"
    using pagination_parser [of "[js ''page'' \<mapsto> js ''-3'', js ''limit'' \<mapsto> js ''500'']"] k
    by (simp add: parseInt_samples js_eq_Nil)
  have c: "parse_pagination [js ''limit'' \<mapsto> js ''0''] = Inr (Num 1, Num 1)"
    using pagination_parser [of "[js ''limit'' \<mapsto> js ''0'']"] k
    by (simp add: parseInt_samples js_eq_Nil)
  have d: "parse_pagination [js ''page'' \<mapsto> js ''abc''] =
     Inl (HTTPException 400 (js ''Invalid pagination parameters''))"
    using pagination_parser [of "[js ''page'' \<mapsto> js ''abc'']"]
    by (simp add: parseInt_samples js_eq_Nil)
  have e: "parse_pagination [js ''limit'' \<mapsto> js ''abc''] =
     Inl (HTTPException 400 (js ''Invalid pagination parameters''))"
    using pagination_parser [of "[js ''limit'' \<mapsto> js ''abc'']"]
    by (simp add: parseInt_samples js_eq_Nil)
  from a b c d e show ?thesis
    by (simp add: parseInt_samples)
qed

theorem empty_page_is_default_counterexample:
  "[js ''page'' \<mapsto> []] (js ''page'') = Some [] \<and> parseInt [] = NaN \<and>
   parse_pagination [js ''page'' \<mapsto> []] = Inr (Num 1, Num 20) \<and>
   status_of (fst (list_handler sample_env sample_store alice [js ''page'' \<mapsto> []])) = 200"
  by (simp add: list_handler_def list_try_def parse_pagination_def parse_page_def
      parse_limit_def parseInt_def js_def Let_def prisma_note_findMany_def
      prisma_note_count_def)

text \<open>
  C6, as amended. A list that is answered with success: the page and the limit of its
  pagination object are those of the parser, a page of at least 1 and a limit from 1 to 100;
  \<open>findMany\<close> was called with the \<open>skip\<close> the handler computes as \<open>(page - 1) * limit\<close> and with
  \<open>take = limit\<close>; \<open>total\<close> is the count the store reports and \<open>hasPreviousPage\<close> is
  \<open>page > 1\<close>. The handler computes on doubles. While \<open>(page - 1) * limit\<close> is below \<open>2^53\<close>
  the \<open>skip\<close> is exactly that product and the notes answered are that slice; while the count
  is below \<open>2^53\<close>, \<open>totalPages\<close> is the ceiling of \<open>total / limit\<close> and \<open>hasNextPage\<close> is
  \<open>page < totalPages\<close>. Beyond \<open>2^53\<close> the product is rounded: with \<open>?page=9007199254740991\<close>
  and \<open>limit=20\<close> the product is 180143985094819800 and the store is asked to skip
  180143985094819808.
\<close>

theorem list_envelope:
  assumes "list_handler e st u q = (Inr (Reply s (SuccessPage d pg)), st')"
  shows "\<exists>p l t. page pg = Num p \<and> limit pg = Num l \<and>
           parse_pagination q = Inr (Num p, Num l) \<and> 1 \<le> p \<and> 1 \<le> l \<and> l \<le> 100 \<and>
           t = int (length (filter (\<lambda>n. userId n = uid u) (table st))) \<and>
           total pg = Number t \<and>
           hasPreviousPage pg = (1 < p) \<and>
           calls st' = calls st @
             [NoteFindMany (uid u) (js_times (js_minus (page pg) (Num 1)) (limit pg)) (limit pg),
              NoteCount (uid u)] \<and>
           ((p - 1) * l < 2 ^ 53 \<longrightarrow>
              js_times (js_minus (page pg) (Num 1)) (limit pg) = Num ((p - 1) * l) \<and>
              d = map select_fields (take (nat l) (drop (nat ((p - 1) * l))
                    (sort_key (\<lambda>n. - int (updatedAt n))
                       (filter (\<lambda>n. userId n = uid u) (table st)))))) \<and>
           (t < 2 ^ 53 \<longrightarrow>
              total pg = Num t \<and>
              totalPages pg = Num \<lceil>real_of_int t / real_of_int l\<rceil> \<and>
              hasNextPage pg = (p < \<lceil>real_of_int t / real_of_int l\<rceil>))"
proof -
  define t where "t = int (length (filter (\<lambda>n. userId n = uid u) (table st)))"
  from list_handler_success [OF assms] obtain p l k where
    pp: "parse_pagination q = Inr (Num p, Num l)" and r: "1 \<le> p" "1 \<le> l" "l \<le> 100"
    and k: "js_times (js_minus (Num p) (Num 1)) (Num l) = Num k"
    and st': "st' = logged (NoteCount (uid u)) (logged (NoteFindMany (uid u) (Num k) (Num l)) st)"
    and d: "d = map select_fields (take (nat l) (drop (nat k)
                  (sort_key (\<lambda>n. - int (updatedAt n))
                     (filter (\<lambda>n. userId n = uid u) (table st)))))"
    and pg: "pg = \<lparr>total = Number t, page = Num p, limit = Num l,
                  totalPages = Math_ceil_div (Number t) (Num l),
                  hasNextPage = js_less (Num p) (Math_ceil_div (Number t) (Num l)),
                  hasPreviousPage = js_less (Num 1) (Num p)\<rparr>"
    unfolding t_def by auto
  have a: "page pg = Num p \<and> limit pg = Num l \<and> total pg = Number t \<and>
      hasPreviousPage pg = (1 < p)"
    by (simp add: pg)
  have c: "calls st' = calls st @
      [NoteFindMany (uid u) (js_times (js_minus (page pg) (Num 1)) (limit pg)) (limit pg),
       NoteCount (uid u)]"
    unfolding st' by (simp add: pg k del: js_times.simps js_minus.simps)
  have s: "js_times (js_minus (page pg) (Num 1)) (limit pg) = Num ((p - 1) * l) \<and>
      d = map select_fields (take (nat l) (drop (nat ((p - 1) * l))
            (sort_key (\<lambda>n. - int (updatedAt n))
               (filter (\<lambda>n. userId n = uid u) (table st)))))"
    if "(p - 1) * l < 2 ^ 53"
  proof -
    from skip_exact [OF r(1,2) that] k have "k = (p - 1) * l"
      by simp
    with k d show ?thesis
      by (simp add: pg del: js_times.simps js_minus.simps)
  qed
  have n: "total pg = Num t \<and> totalPages pg = Num \<lceil>real_of_int t / real_of_int l\<rceil> \<and>
      hasNextPage pg = (p < \<lceil>real_of_int t / real_of_int l\<rceil>)"
    if "t < 2 ^ 53"
  proof -
    have t0: "0 \<le> t" by (simp add: t_def)
    with that have "Number t = Num t"
      by (intro Number_exact) simp
    with Math_ceil_div_exact [OF t0 that r(2,3)] show ?thesis
      by (simp add: pg)
  qed
  from a pp r c s n show ?thesis
    unfolding t_def [symmetric] by blast
qed

theorem list_envelope_witness:
  "\<exists>d pg st'.
     list_handler sample_env crowded_store alice page2_limit10 =
       (Inr (Reply 200 (SuccessPage d pg)), st') \<and>
     page pg = Num 2 \<and> limit pg = Num 10 \<and> total pg = Num 25 \<and> totalPages pg = Num 3 \<and>
     hasNextPage pg \<and> hasPreviousPage pg \<and> length d = 10 \<and>
     calls st' = [NoteFindMany (js ''alice'') (Num 10) (Num 10), NoteCount (js ''alice'')]"
proof -
  obtain d pg st' where
    e: "list_handler sample_env crowded_store alice page2_limit10 =
          (Inr (Reply 200 (SuccessPage d pg)), st')"
    using list_handler_ok [OF parse_page2_limit10, of sample_env crowded_store alice] by auto
  from list_envelope [OF e] obtain p l t where
    f: "page pg = Num p" "limit pg = Num l"
      "parse_pagination page2_limit10 = Inr (Num p, Num l)"
      "t = int (length (filter (\<lambda>n. userId n = uid alice) (table crowded_store)))"
      "hasPreviousPage pg = (1 < p)"
      "calls st' = calls crowded_store @
         [NoteFindMany (uid alice) (js_times (js_minus (page pg) (Num 1)) (limit pg)) (limit pg),
          NoteCount (uid alice)]"
      "(p - 1) * l < 2 ^ 53 \<longrightarrow>
         js_times (js_minus (page pg) (Num 1)) (limit pg) = Num ((p - 1) * l) \<and>
         d = map select_fields (take (nat l) (drop (nat ((p - 1) * l))
               (sort_key (\<lambda>n. - int (updatedAt n))
                  (filter (\<lambda>n. userId n = uid alice) (table crowded_store)))))"
      "t < 2 ^ 53 \<longrightarrow>
         total pg = Num t \<and> totalPages pg = Num \<lceil>real_of_int t / real_of_int l\<rceil> \<and>
         hasNextPage pg = (p < \<lceil>real_of_int t / real_of_int l\<rceil>)"
    by blast
  from f(3) have pl: "p = 2" "l = 10"
    by (simp_all add: parse_page2_limit10)
  from f(4) have t: "t = 25"
    by (simp add: crowd_count)
  have c: "calls crowded_store = []"
    by (simp add: crowded_store_def)
  have u: "uid alice = js ''alice''"
    by (simp add: alice_def)
  from f(8) have n: "total pg = Num 25" "totalPages pg = Num 3" "hasNextPage pg"
    unfolding t pl by (simp_all add: ceiling_divide_eq_div)
  from f(7) have s: "js_times (js_minus (page pg) (Num 1)) (limit pg) = Num 10"
    and d: "d = map select_fields (take 10 (drop 10
               (sort_key (\<lambda>n. - int (updatedAt n))
                  (filter (\<lambda>n. userId n = uid alice) (table crowded_store)))))"
    unfolding pl by simp_all
  from d have ld: "length d = 10"
    by (simp add: crowd_count)
  from f(6) s have cs: "calls st' = [NoteFindMany (js ''alice'') (Num 10) (Num 10),
      NoteCount (js ''alice'')]"
    by (simp add: c u f(2) pl del: js_times.simps js_minus.simps)
  from f(5) have hp: "hasPreviousPage pg"
    unfolding pl by simp
  from e f(1,2) pl n hp ld cs show ?thesis
    by blast
qed

theorem far_page_skip_counterexample:
  "list_handler sample_env sample_store alice far_page =
     (Inr (Reply 200 (SuccessPage []
        \<lparr>total = Num 1, page = Num 9007199254740991, limit = Num 20, totalPages = Num 1,
         hasNextPage = False, hasPreviousPage = True\<rparr>)),
      \<lparr>table = [sample_note],
       calls = [NoteFindMany (js ''alice'') (Num 180143985094819808) (Num 20),
                NoteCount (js ''alice'')]\<rparr>) \<and>
   (9007199254740991 - 1) * 20 = (180143985094819800 :: int) \<and>
   (180143985094819808 :: int) \<noteq> (9007199254740991 - 1) * 20"
proof -
  have k: "js ''page'' \<noteq> js ''limit''"
    by (simp add: js_def)
  have p: "parseInt (js ''9007199254740991'') = Num 9007199254740991"
    "parseInt (js ''20'') = Num 20"
    by (simp_all add: parseInt_def js_def isWhiteSpace_def isDigit_def digitValue_def)
  have pp: "parse_pagination far_page = Inr (Num 9007199254740991, Num 20)"
    using k by (simp add: far_page_def parse_pagination_def parse_page_def parse_limit_def p
        js_eq_Nil)
  have "\<lceil>real_of_int 1 / real_of_int 20\<rceil> = 1"
    unfolding ceiling_divide_eq_div by simp
  with Math_ceil_div_exact [of 1 20] have c: "Math_ceil_div (Num 1) (Num 20) = Num 1"
    by (simp del: Math_ceil_div.simps)
  have "list_handler sample_env sample_store alice far_page =
     (Inr (Reply 200 (SuccessPage []
        \<lparr>total = Num 1, page = Num 9007199254740991, limit = Num 20, totalPages = Num 1,
         hasNextPage = False, hasPreviousPage = True\<rparr>)),
      \<lparr>table = [sample_note],
       calls = [NoteFindMany (js ''alice'') (Num 180143985094819808) (Num 20),
                NoteCount (js ''alice'')]\<rparr>)"
    by (simp add: list_handler_def list_try_def pp far_product c prisma_note_findMany_def
        prisma_note_count_def logged_def Let_def sample_store_def sample_note_def alice_def
        del: Math_ceil_div.simps)
  then show ?thesis by simp
qed

text \<open>
  C7. An update that is answered with success: the note of that identifier is still stored;
  if the body has no \<open>title\<close> its title is the one it had, if the body has no \<open>content\<close> its
  content is the one it had; its \<open>updatedAt\<close> is the time of the request, its \<open>createdAt\<close>
  and its owner are as before; the answer carries the note as stored; every other note is
  untouched.
\<close>

theorem partial_update_keeps_omitted:
  assumes "update_handler e st u i (Json b) = (Inr r, st')"
  shows "\<exists>n n'. stored st i = Some n \<and> stored st' i = Some n' \<and>
           (get_prop e b (js ''title'') = Inr None \<longrightarrow> title n' = title n) \<and>
           (get_prop e b (js ''content'') = Inr None \<longrightarrow> content n' = content n) \<and>
           updatedAt n' = now e \<and> createdAt n' = createdAt n \<and> userId n' = userId n \<and>
           r = Reply 200 (SuccessData (select_fields n')) \<and>
           filter (\<lambda>m. noteId m \<noteq> i) (table st') = filter (\<lambda>m. noteId m \<noteq> i) (table st)"
proof -
  from update_handler_ok [OF assms] obtain t c n where
    t: "get_prop e b (js ''title'') = Inr t" and c: "get_prop e b (js ''content'') = Inr c"
    and n: "find (\<lambda>m. noteId m = i) (table st) = Some n"
    and r: "r = Reply 200 (SuccessData (select_fields (apply_update e t c n)))"
    and tb: "table st' = map (\<lambda>m. if noteId m = i then apply_update e t c m else m) (table st)"
    by blast
  have "stored st' i = Some (apply_update e t c n)"
    by (simp add: stored_def tb find_map_update n)
  moreover have "stored st i = Some n"
    by (simp add: stored_def n)
  moreover have "filter (\<lambda>m. noteId m \<noteq> i) (table st') = filter (\<lambda>m. noteId m \<noteq> i) (table st)"
    by (simp add: tb filter_map_update)
  ultimately show ?thesis
    using t c r by auto
qed

theorem partial_update_keeps_omitted_witness:
  "get_prop sample_env (JObj [(js ''content'', JStr (js ''eggs''))]) (js ''title'') = Inr None \<and>
   (\<exists>r st' n'.
      update_handler sample_env sample_store alice (noteId sample_note)
        (Json (JObj [(js ''content'', JStr (js ''eggs''))])) = (Inr r, st') \<and>
      stored sample_store (noteId sample_note) = Some sample_note \<and>
      stored st' (noteId sample_note) = Some n' \<and>
      title n' = title sample_note \<and> content n' = js ''eggs'' \<and>
      updatedAt sample_note = 10 \<and> updatedAt n' = 20)"
proof -
  let ?b = "JObj [(js ''content'', JStr (js ''eggs''))]"
  let ?n = "sample_note\<lparr>content := js ''eggs'', updatedAt := 20\<rparr>"
  let ?st = "\<lparr>table = [?n],
      calls = [NoteFindFirst (noteId sample_note) (js ''alice''), NoteUpdate (noteId sample_note)]\<rparr>"
  have g: "get_prop sample_env ?b (js ''title'') = Inr None"
    by (simp add: js_def)
  have e: "update_handler sample_env sample_store alice (noteId sample_note) (Json ?b) =
      (Inr (Reply 200 (SuccessData (select_fields ?n))), ?st)"
    by code_simp
  have s0: "stored sample_store (noteId sample_note) = Some sample_note"
    by (simp add: stored_def sample_store_def)
  have s1: "stored ?st (noteId sample_note) = Some ?n"
    by (simp add: stored_def)
  have v: "content ?n = js ''eggs'' \<and> updatedAt sample_note = 10 \<and> updatedAt ?n = 20"
    by (simp add: sample_note_def)
  from partial_update_keeps_omitted [OF e] g s0 s1 have "title ?n = title sample_note"
    by simp
  with g e s0 s1 v show ?thesis
    by blast
qed

text \<open>
  C8. Every operation leaves the owner of every stored note as it is, and no note disappears.
  Only a creation adds a note: one note, under the identifier the store assigns, a new one,
  owned by the caller.
\<close>

theorem owner_fixed_at_creation:
  "owners (snd (handle e st u r)) = owners st \<or>
   (\<exists>rb. r = Create rb) \<and> owners (snd (handle e st u r)) = owners st @ [(uuid e, uid u)] \<and>
   uuid e \<notin> set (map fst (owners st))"
proof (cases r)
  case (Create rb)
  then show ?thesis using create_handler_owners [of e st u rb] by auto
next
  case (Update i rb)
  then show ?thesis by (simp add: update_handler_owners)
next
  case (GetOne i)
  then show ?thesis by (simp add: get_handler_owners)
next
  case (ListAll q)
  then show ?thesis by (simp add: list_handler_owners)
qed

theorem owner_fixed_at_creation_witness:
  "owners sample_store = [(noteId sample_note, js ''alice'')] \<and>
   owners (snd (handle sample_env sample_store bob
     (Create (Json (JObj [(js ''title'', JStr (js ''Mine''))]))))) =
     [(noteId sample_note, js ''alice''), (uuid sample_env, js ''bob'')] \<and>
   owners (snd (handle sample_env sample_store alice
     (Update (noteId sample_note) (Json (JObj [(js ''title'', JStr (js ''New''))]))))) =
     [(noteId sample_note, js ''alice'')]"
proof -
  have a: "owners sample_store = [(noteId sample_note, js ''alice'')]"
    by (simp add: owners_def sample_store_def sample_note_def)
  have b: "owners (snd (handle sample_env sample_store bob
     (Create (Json (JObj [(js ''title'', JStr (js ''Mine''))]))))) =
     [(noteId sample_note, js ''alice''), (uuid sample_env, js ''bob'')]"
    by code_simp
  have c: "owners (snd (handle sample_env sample_store alice
     (Update (noteId sample_note) (Json (JObj [(js ''title'', JStr (js ''New''))]))))) =
     owners sample_store"
    using owner_fixed_at_creation [of sample_env sample_store alice
      "Update (noteId sample_note) (Json (JObj [(js ''title'', JStr (js ''New''))]))"]
    by simp
  from a b c show ?thesis by simp
qed

text \<open>
  C9. The check of the identifier accepts an identifier with any of its four hyphens present
  and any of them left out, each on its own: for five groups of 8, 4, 4, 4 and 12 hexadecimal
  digits with the version digit 4 and a variant digit of 8, 9, a or b, every one of the
  sixteen ways of placing hyphens is accepted. So is the identifier with a hyphen after the
  first group and nowhere else.
\<close>

theorem hyphens_independently_optional:
  assumes "length g1 = 8" and "length g2 = 4" and "length g3 = 4" and "length g4 = 4"
    and "length g5 = 12"
    and "list_all hex_digit (g1 @ g2 @ g3 @ g4 @ g5)"
    and "hd g3 = 0x34"
    and "hd g4 \<in> {0x38, 0x39, 0x61, 0x62, 0x41, 0x42}"
  shows "\<not> invalid_id (assemble g1 b1 g2 b2 g3 b3 g4 b4 g5)"
proof -
  have "uuid_v4_shape (assemble g1 b1 g2 b2 g3 b3 g4 b4 g5)"
    unfolding uuid_v4_shape_def using assms by blast
  then show ?thesis
    by (simp add: invalid_id_iff)
qed

theorem hyphens_independently_optional_witness:
  "assemble (js ''12345678'') True (js ''1234'') False (js ''4123'') False (js ''8123'') False
     (js ''123456789abc'') = js ''12345678-123441238123123456789abc'' \<and>
   length (filter (\<lambda>c. c = 0x2D) (js ''12345678-123441238123123456789abc'')) = 1 \<and>
   \<not> invalid_id (js ''12345678-123441238123123456789abc'') \<and>
   \<not> invalid_id (js ''123456781234-41238123-123456789ABC'')"
proof -
  have a: "assemble (js ''12345678'') True (js ''1234'') False (js ''4123'') False (js ''8123'')
      False (js ''123456789abc'') = js ''12345678-123441238123123456789abc''"
    by code_simp
  have b: "assemble (js ''12345678'') False (js ''1234'') True (js ''4123'') False (js ''8123'')
      True (js ''123456789ABC'') = js ''123456781234-41238123-123456789ABC''"
    by code_simp
  have c: "length (filter (\<lambda>c. c = 0x2D) (js ''12345678-123441238123123456789abc'')) = 1"
    by code_simp
  have l: "length (js ''12345678'') = 8" "length (js ''1234'') = 4" "length (js ''4123'') = 4"
    "length (js ''8123'') = 4" "length (js ''123456789abc'') = 12"
    "length (js ''123456789ABC'') = 12"
    by (simp_all add: js_def)
  have h1: "list_all hex_digit
      (js ''12345678'' @ js ''1234'' @ js ''4123'' @ js ''8123'' @ js ''123456789abc'')"
    by code_simp
  have h2: "list_all hex_digit
      (js ''12345678'' @ js ''1234'' @ js ''4123'' @ js ''8123'' @ js ''123456789ABC'')"
    by code_simp
  have v: "hd (js ''4123'') = 0x34" "hd (js ''8123'') \<in> {0x38, 0x39, 0x61, 0x62, 0x41, 0x42}"
    by (simp_all add: js_def)
  from hyphens_independently_optional [OF l(1-5) h1 v, of True False False False]
    hyphens_independently_optional [OF l(1-4) l(6) h2 v, of False True False True]
    a b c
  show ?thesis by simp
qed

text \<open>
  C10. A creation or an update whose body is not JSON is answered 500: the error of
  \<open>c.req.json()\<close> is no \<open>HTTPException\<close>, so either \<open>catch\<close> block throws it again as a 500
  with its message, and the store is not touched.
\<close>

theorem unparseable_body_is_500:
  "create_handler e st u NotJson = (Inl (HTTPException 500 (lib_message e)), st) \<and>
   update_handler e st u i NotJson = (Inl (HTTPException 500 (lib_message e)), st) \<and>
   status_of (fst (create_handler e st u NotJson)) = 500 \<and>
   status_of (fst (update_handler e st u i NotJson)) = 500"
  by (simp add: create_handler_def create_try_def create_catch_def update_handler_not_json
      req_json_def)

theorem unparseable_body_is_500_witness:
  "status_of (fst (create_handler sample_env sample_store alice NotJson)) = 500 \<and>
   status_of (fst (update_handler sample_env sample_store alice (noteId sample_note) NotJson)) = 500 \<and>
   status_of (fst (update_handler sample_env sample_store alice (js ''abc'') NotJson)) = 500"
  using unparseable_body_is_500 [of sample_env sample_store alice "noteId sample_note"]
    unparseable_body_is_500 [of sample_env sample_store alice "js ''abc''"]
  by simp

end
